theory Spec2Isabelle
  imports Complex_Main "HOL-Library.Word"
begin

section \<open>Data model\<close>

text \<open>
  The development embeds the class \<open>Diffusion\<close> of \<open>ddpm.py\<close>.  Tensor entries are
  reals.  The arithmetic on tensors is exact, with three places where the precision of
  the float32 tensors decides what the code does written out: the values a schedule
  stores (the constructor on a machine, below), the integer timestep that an iteration
  of the generation loop builds through a float32 tensor, and the conversion to unsigned
  8-bit integers.  Overflow to infinity and NaN are outside the model.

  A one-dimensional tensor is a list.  A batch of shape \<open>(N, C, H, W)\<close> is a list of \<open>N\<close>
  samples, each sample the list of its \<open>C * H * W\<close> entries in row-major order: the code
  only ever combines a batch with per-sample coefficients of shape \<open>(N, 1, 1, 1)\<close> or
  with another batch of the same shape, so the three inner dimensions never need to be
  told apart.
\<close>

datatype error = RuntimeError | IndexError | ModelError

type_synonym sample = "real list"
type_synonym batch = "sample list"

record diffusion =
  noise_steps :: int
  beta_start :: real
  beta_end :: real
  img_size :: nat
  beta :: "real list"
  alpha :: "real list"
  alpha_hat :: "real list"

section \<open>Schedule construction in exact arithmetic\<close>

text \<open>
  \<open>torch.linspace(start, end, steps)\<close> in exact arithmetic: \<open>steps\<close> evenly spaced
  values from \<open>start\<close> to \<open>end\<close>; a negative \<open>steps\<close> raises \<open>RuntimeError\<close>,
  \<open>steps = 0\<close> gives the empty tensor, and \<open>steps = 1\<close> gives the single value \<open>start\<close>.
\<close>

definition linspace :: "real \<Rightarrow> real \<Rightarrow> int \<Rightarrow> error + real list" where
  "linspace start stop steps =
     (if steps < 0 then Inl RuntimeError
      else if steps = 1 then Inr [start]
      else Inr (map (\<lambda>i. start + real i * ((stop - start) / real_of_int (steps - 1)))
                  [0..<nat steps]))"

text \<open>\<open>torch.cumprod(xs, dim=0)\<close> in exact arithmetic: the running product, kept in an
  accumulator.\<close>

fun cumprod_from :: "real \<Rightarrow> real list \<Rightarrow> real list" where
  "cumprod_from acc [] = []"
| "cumprod_from acc (x # xs) = (acc * x) # cumprod_from (acc * x) xs"

definition cumprod :: "real list \<Rightarrow> real list" where
  "cumprod xs = cumprod_from 1 xs"

definition prepare_noise_schedule :: "real \<Rightarrow> real \<Rightarrow> int \<Rightarrow> error + real list" where
  "prepare_noise_schedule b_start b_end steps = linspace b_start b_end steps"

text \<open>
  The computation of \<open>Diffusion.__init__\<close>, in exact arithmetic and with no limit on the
  size of a tensor; the constructor on a machine, with float32 tensors, follows in the
  next section and agrees with this one where the machine is exact and creates the
  tensors.  The optional printing of the parameters has no effect on the schedule and is
  left out.  There is no validation of the arguments: the only failure here is the one
  \<open>torch.linspace\<close> raises for a negative step count.
\<close>

definition Diffusion_init :: "int \<Rightarrow> real \<Rightarrow> real \<Rightarrow> nat \<Rightarrow> error + diffusion" where
  "Diffusion_init steps b_start b_end sz =
     (case prepare_noise_schedule b_start b_end steps of
        Inl e \<Rightarrow> Inl e
      | Inr b \<Rightarrow>
          Inr \<lparr>noise_steps = steps, beta_start = b_start, beta_end = b_end, img_size = sz,
               beta = b, alpha = map (\<lambda>x. 1 - x) b,
               alpha_hat = cumprod (map (\<lambda>x. 1 - x) b)\<rparr>)"

section \<open>Schedule construction on a machine\<close>

text \<open>
  \<open>Diffusion_init\<close> above is the computation of the constructor in exact arithmetic and
  without limits.  On a machine the library first has to take the step count as a 64-bit
  integer and to create the tensors, on the host and on the device, and every value a
  tensor stores is a float32.  A machine is described by what creating the tensors of a
  schedule of a given length raises, if anything (not enough memory, no such device), by
  the rounding \<open>fl\<close> of a real to the value a tensor stores for it, and by the rounding
  \<open>accum\<close> of the accumulator in which the library keeps a running product, which can be
  of a wider type than the tensor.
\<close>

datatype error_or_ok = Raises error | Created

record machine =
  creates :: "nat \<Rightarrow> error_or_ok"
  fl :: "real \<Rightarrow> real"
  accum :: "real \<Rightarrow> real"

text \<open>
  What theorems assume of a rounding: it is monotone, it keeps 0 and 1, and it keeps the
  values it produces.  Rounding to the nearest float32, or to the nearest double, is such
  a function.  Of a machine they assume that both its roundings are such, and that the
  accumulator holds every stored value as it is.
\<close>

definition rounding :: "(real \<Rightarrow> real) \<Rightarrow> bool" where
  "rounding f = ((\<forall>x y. x \<le> y \<longrightarrow> f x \<le> f y) \<and> f 0 = 0 \<and> f 1 = 1 \<and> (\<forall>x. f (f x) = f x))"

definition sound_arithmetic :: "machine \<Rightarrow> bool" where
  "sound_arithmetic m =
     (rounding (fl m) \<and> rounding (accum m) \<and> (\<forall>x. accum m (fl m x) = fl m x))"

definition exact_arithmetic :: "machine \<Rightarrow> bool" where
  "exact_arithmetic m = ((\<forall>x. fl m x = x) \<and> (\<forall>x. accum m x = x))"

text \<open>
  \<open>torch.linspace\<close> on a machine: a step count outside the 64-bit integers and a negative
  one raise \<open>RuntimeError\<close>, then the tensor has to be created; the bounds are stored as
  float32 values, and each value between them is the stored value of the exact formula
  (the library evaluates the formula in float32, which can differ from this in the last
  place).
\<close>

definition linspace_on :: "machine \<Rightarrow> real \<Rightarrow> real \<Rightarrow> int \<Rightarrow> error + real list" where
  "linspace_on m start stop steps =
     (if steps < - (2 ^ 63) \<or> 2 ^ 63 \<le> steps then Inl RuntimeError
      else if steps < 0 then Inl RuntimeError
      else
        (case creates m (nat steps) of
           Raises e \<Rightarrow> Inl e
         | Created \<Rightarrow>
             (if steps = 1 then Inr [fl m start]
              else Inr (map (\<lambda>i. fl m (fl m start
                                   + real i * ((fl m stop - fl m start) / real_of_int (steps - 1))))
                          [0..<nat steps]))))"

text \<open>
  \<open>torch.cumprod\<close> on a machine, from left to right: the running product is kept in the
  accumulator, starting from 1, and every entry of the result is the stored value of the
  accumulator.
\<close>

fun cumprod_acc :: "(real \<Rightarrow> real) \<Rightarrow> (real \<Rightarrow> real) \<Rightarrow> real \<Rightarrow> real list \<Rightarrow> real list" where
  "cumprod_acc a f p [] = []"
| "cumprod_acc a f p (x # xs) = f (a (p * x)) # cumprod_acc a f (a (p * x)) xs"

definition cumprod_on :: "machine \<Rightarrow> real list \<Rightarrow> real list" where
  "cumprod_on m xs = cumprod_acc (accum m) (fl m) 1 xs"

text \<open>The constructor on a machine.  The fields \<open>beta_start\<close> and \<open>beta_end\<close> keep the
  arguments as they were given; the tensors hold float32 values.\<close>

definition Diffusion_new :: "machine \<Rightarrow> int \<Rightarrow> real \<Rightarrow> real \<Rightarrow> nat \<Rightarrow> error + diffusion" where
  "Diffusion_new m steps b_start b_end sz =
     (case linspace_on m b_start b_end steps of
        Inl e \<Rightarrow> Inl e
      | Inr b \<Rightarrow>
          Inr \<lparr>noise_steps = steps, beta_start = b_start, beta_end = b_end, img_size = sz,
               beta = b, alpha = map (\<lambda>x. fl m (1 - x)) b,
               alpha_hat = cumprod_on m (map (\<lambda>x. fl m (1 - x)) b)\<rparr>)"

section \<open>Random sources\<close>

text \<open>
  The code draws from the global generator of the tensor library.  The generator is made
  explicit as the infinite sequence of values it is going to hand out, together with the
  number of values already consumed: a draw reads the next unread values and advances
  the position, so two draws never share a value.  The sequence \<open>rng\<close> holds the
  standard-normal draws, the sequence \<open>bits\<close> the raw integers behind \<open>torch.randint\<close>.
\<close>

type_synonym rng = "nat \<Rightarrow> real"
type_synonym bits = "nat \<Rightarrow> nat"

definition randn :: "rng \<Rightarrow> nat \<Rightarrow> nat \<Rightarrow> real list" where
  "randn g pos k = map g [pos..<pos + k]"

text \<open>\<open>torch.randn_like(x)\<close>: fresh draws in the shape of \<open>x\<close>.\<close>

fun randn_like :: "rng \<Rightarrow> nat \<Rightarrow> batch \<Rightarrow> batch \<times> nat" where
  "randn_like g pos [] = ([], pos)"
| "randn_like g pos (s # ss) =
     (case randn_like g (pos + length s) ss of
        (r, pos') \<Rightarrow> (randn g pos (length s) # r, pos'))"

text \<open>\<open>torch.randn((n, 3, S, S))\<close>, with \<open>m = 3 * S * S\<close> entries for each sample.\<close>

definition randn_batch :: "rng \<Rightarrow> nat \<Rightarrow> nat \<Rightarrow> nat \<Rightarrow> batch \<times> nat" where
  "randn_batch g pos n m = randn_like g pos (replicate n (replicate m 0))"

definition zeros_like :: "batch \<Rightarrow> batch" where
  "zeros_like x = map (map (\<lambda>v. 0)) x"

text \<open>
  \<open>torch.randint(low, high, size=(n,))\<close>: the library rejects an empty range
  (\<open>high \<le> low\<close>) with \<open>RuntimeError\<close> before drawing anything, and otherwise maps each
  raw integer \<open>r\<close> to \<open>low + r mod (high - low)\<close>.
\<close>

definition randint_value :: "int \<Rightarrow> int \<Rightarrow> nat \<Rightarrow> int" where
  "randint_value low high r = low + int (r mod nat (high - low))"

definition randint :: "int \<Rightarrow> int \<Rightarrow> nat \<Rightarrow> bits \<Rightarrow> nat \<Rightarrow> (error + int list) \<times> nat" where
  "randint low high n u pos =
     (if high \<le> low then (Inl RuntimeError, pos)
      else (Inr (map (\<lambda>k. randint_value low high (u k)) [pos..<pos + n]), pos + n))"


section \<open>Tensor operations\<close>

text \<open>
  \<open>xs[t]\<close> for a one-dimensional tensor \<open>xs\<close> and an integer index tensor \<open>t\<close>: an index
  in \<open>[-len, 0)\<close> counts from the end, an index outside \<open>[-len, len)\<close> raises
  \<open>IndexError\<close>.
\<close>

definition index_tensor :: "real list \<Rightarrow> int list \<Rightarrow> error + real list" where
  "index_tensor xs t =
     (if list_all (\<lambda>i. - int (length xs) \<le> i \<and> i < int (length xs)) t
      then Inr (map (\<lambda>i. xs ! nat (if i < 0 then i + int (length xs) else i)) t)
      else Inl IndexError)"

text \<open>
  The product \<open>c[:, None, None, None] * x\<close> of per-sample coefficients \<open>c\<close> (shape
  \<open>(M, 1, 1, 1)\<close>) with a batch \<open>x\<close> (shape \<open>(N, C, H, W)\<close>).  Broadcasting pairs the two
  along the batch dimension when \<open>M = N\<close>, repeats the one coefficient when \<open>M = 1\<close>,
  repeats the one sample when \<open>N = 1\<close>, and raises \<open>RuntimeError\<close> otherwise.
\<close>

definition scale_batch :: "real list \<Rightarrow> batch \<Rightarrow> error + batch" where
  "scale_batch c x =
     (if length c = length x then Inr (map2 (\<lambda>a s. map ((*) a) s) c x)
      else if length c = 1 then Inr (map (map ((*) (hd c))) x)
      else if length x = 1 then Inr (map (\<lambda>a. map ((*) a) (hd x)) c)
      else Inl RuntimeError)"

text \<open>
  An elementwise operation on two batches.  For batches of one shape it is applied entry
  by entry.  Batches of different shapes are only ever met when the predictor returns
  something that is not of the shape of its input, against its contract; the library
  would then broadcast or raise, which the model does not follow: it reports
  \<open>RuntimeError\<close>, and the theorems about generation assume the predictor's contract.
\<close>

definition pointwise :: "(real \<Rightarrow> real \<Rightarrow> real) \<Rightarrow> batch \<Rightarrow> batch \<Rightarrow> error + batch" where
  "pointwise f x y =
     (if map length x = map length y then Inr (map2 (map2 f) x y) else Inl RuntimeError)"

section \<open>Forward process\<close>

text \<open>\<open>Diffusion.noise_images\<close>: returns the noised batch and the noise, and the new
  position of the generator.\<close>

definition noise_images ::
  "diffusion \<Rightarrow> batch \<Rightarrow> int list \<Rightarrow> rng \<Rightarrow> nat \<Rightarrow> (error + batch \<times> batch) \<times> nat" where
  "noise_images d x_0 t g pos =
     (case index_tensor (alpha_hat d) t of
        Inl e \<Rightarrow> (Inl e, pos)
      | Inr ah \<Rightarrow>
          (case randn_like g pos x_0 of
             (epsilon, pos') \<Rightarrow>
               (case scale_batch (map sqrt ah) x_0 of
                  Inl e \<Rightarrow> (Inl e, pos')
                | Inr u \<Rightarrow>
                    (case scale_batch (map (\<lambda>a. sqrt (1 - a)) ah) epsilon of
                       Inl e \<Rightarrow> (Inl e, pos')
                     | Inr v \<Rightarrow>
                         (case pointwise (+) u v of
                            Inl e \<Rightarrow> (Inl e, pos')
                          | Inr x_t \<Rightarrow> (Inr (x_t, epsilon), pos'))))))"

section \<open>Timestep sampler\<close>

definition sample_timestep :: "diffusion \<Rightarrow> nat \<Rightarrow> bits \<Rightarrow> nat \<Rightarrow> (error + int list) \<times> nat" where
  "sample_timestep d n u pos = randint 1 (noise_steps d) n u pos"

section \<open>Reverse process\<close>

text \<open>
  The predictor is an external collaborator: a function of its mode, the batch and the
  timestep tensor that returns a prediction or raises.  Its mode is the one piece of
  state that \<open>Diffusion.sample\<close> writes: \<open>model.eval()\<close> and \<open>model.train()\<close>.
\<close>

datatype mode = Training | Inference

type_synonym predictor = "mode \<Rightarrow> batch \<Rightarrow> int list \<Rightarrow> error + batch"

text \<open>Line 84, the update of \<open>x\<close>, on the looked-up coefficient tensors.\<close>

definition sample_update ::
  "real list \<Rightarrow> real list \<Rightarrow> real list \<Rightarrow> batch \<Rightarrow> batch \<Rightarrow> batch \<Rightarrow> error + batch" where
  "sample_update a ah b x predicted_noise noise =
     (case scale_batch (map2 (\<lambda>p q. (1 - p) / sqrt (1 - q)) a ah) predicted_noise of
        Inl e \<Rightarrow> Inl e
      | Inr w \<Rightarrow>
          (case pointwise (-) x w of
             Inl e \<Rightarrow> Inl e
           | Inr y \<Rightarrow>
               (case scale_batch (map (\<lambda>p. 1 / sqrt p) a) y of
                  Inl e \<Rightarrow> Inl e
                | Inr u \<Rightarrow>
                    (case scale_batch (map sqrt b) noise of
                       Inl e \<Rightarrow> Inl e
                     | Inr v \<Rightarrow> pointwise (+) u v))))"

text \<open>Line 82: the noise of one iteration, fresh draws for \<open>n > 1\<close> and zeros otherwise.\<close>

definition noise_draw :: "nat \<Rightarrow> rng \<Rightarrow> nat \<Rightarrow> batch \<Rightarrow> batch \<times> nat" where
  "noise_draw n g pos x = (if 1 < n then randn_like g pos x else (zeros_like x, pos))"

text \<open>
  Lines 77 to 84 of one iteration, for a timestep tensor \<open>t\<close> whose \<open>n\<close> entries all hold
  the integer \<open>i\<close>.
\<close>

definition sample_iter ::
  "diffusion \<Rightarrow> predictor \<Rightarrow> nat \<Rightarrow> rng \<Rightarrow> int \<Rightarrow> batch \<times> nat \<Rightarrow> (error + batch) \<times> nat" where
  "sample_iter d model n g i xp =
     (case xp of
        (x, pos) \<Rightarrow>
          (case model Inference x (replicate n i) of
             Inl e \<Rightarrow> (Inl e, pos)
           | Inr predicted_noise \<Rightarrow>
               (case index_tensor (alpha d) (replicate n i) of
                  Inl e \<Rightarrow> (Inl e, pos)
                | Inr a \<Rightarrow>
                    (case index_tensor (alpha_hat d) (replicate n i) of
                       Inl e \<Rightarrow> (Inl e, pos)
                     | Inr ah \<Rightarrow>
                         (case index_tensor (beta d) (replicate n i) of
                            Inl e \<Rightarrow> (Inl e, pos)
                          | Inr b \<Rightarrow>
                              (case noise_draw n g pos x of
                                 (noise, pos') \<Rightarrow>
                                   (sample_update a ah b x predicted_noise noise, pos')))))))"

text \<open>
  Line 75, \<open>t = (torch.ones(n) * i).long()\<close>.  The loop variable is multiplied into a
  float32 tensor and converted back to integers, so every entry of \<open>t\<close> holds \<open>i\<close> rounded
  to the nearest float32 value, a tie going to the even mantissa.  \<open>float32_ulp m\<close> is the
  spacing of the float32 values at \<open>m\<close>: 1 below \<open>2^24\<close>, and doubled with every further
  binary digit.  (A loop variable is below the length of a schedule, far from the largest
  float32 value.)
\<close>

function float32_ulp :: "nat \<Rightarrow> nat" where
  "float32_ulp m = (if m < 2 ^ 24 then 1 else 2 * float32_ulp (m div 2))"
  by pat_completeness auto
termination
  by (relation "measure (\<lambda>m. m)") auto

definition float32_of_nat :: "nat \<Rightarrow> nat" where
  "float32_of_nat m =
     (if 2 * (m mod float32_ulp m) < float32_ulp m then (m div float32_ulp m) * float32_ulp m
      else if float32_ulp m < 2 * (m mod float32_ulp m)
        then (m div float32_ulp m + 1) * float32_ulp m
      else if even (m div float32_ulp m) then (m div float32_ulp m) * float32_ulp m
      else (m div float32_ulp m + 1) * float32_ulp m)"

definition float32_long :: "int \<Rightarrow> int" where
  "float32_long i =
     (if i < 0 then - int (float32_of_nat (nat (- i))) else int (float32_of_nat (nat i)))"

text \<open>The loop over \<open>reversed(range(1, noise_steps))\<close>; an exception leaves it at once.\<close>

fun sample_loop ::
  "diffusion \<Rightarrow> predictor \<Rightarrow> nat \<Rightarrow> rng \<Rightarrow> int list \<Rightarrow> batch \<times> nat \<Rightarrow> (error + batch) \<times> nat" where
  "sample_loop d model n g [] xp = (Inr (fst xp), snd xp)"
| "sample_loop d model n g (i # rest) xp =
     (case sample_iter d model n g (float32_long i) xp of
        (Inl e, pos') \<Rightarrow> (Inl e, pos')
      | (Inr x', pos') \<Rightarrow> sample_loop d model n g rest (x', pos'))"

definition sample_timesteps :: "diffusion \<Rightarrow> int list" where
  "sample_timesteps d = rev [1..noise_steps d - 1]"

text \<open>
  Lines 87 and 88.  \<open>clamp(-1, 1)\<close> is \<open>min (max v (-1)) 1\<close>; the conversion to
  \<open>torch.uint8\<close> drops the fractional part and keeps the low eight bits.
\<close>

definition clamp :: "real \<Rightarrow> real \<Rightarrow> real \<Rightarrow> real" where
  "clamp lo hi v = min (max v lo) hi"

definition truncate :: "real \<Rightarrow> int" where
  "truncate v = (if 0 \<le> v then \<lfloor>v\<rfloor> else \<lceil>v\<rceil>)"

definition to_uint8 :: "real \<Rightarrow> 8 word" where
  "to_uint8 v = word_of_int (truncate v)"

definition postprocess :: "batch \<Rightarrow> 8 word list list" where
  "postprocess x = map (map (\<lambda>v. to_uint8 ((clamp (- 1) 1 v + 1) / 2 * 255))) x"

text \<open>
  \<open>Diffusion.sample\<close>.  The result is the value or the exception that reaches the caller,
  the mode the predictor is left in, and the position of the generator.  The mode before
  the call is an argument; the code never reads it: \<open>model.eval()\<close> comes first,
  \<open>model.train()\<close> follows the loop, and an exception raised inside the loop skips it.
\<close>

definition sample ::
  "diffusion \<Rightarrow> predictor \<Rightarrow> nat \<Rightarrow> rng \<Rightarrow> mode \<Rightarrow> nat \<Rightarrow> (error + 8 word list list) \<times> mode \<times> nat" where
  "sample d model n g md pos =
     (case randn_batch g pos n (3 * img_size d * img_size d) of
        (x0, pos0) \<Rightarrow>
          (case sample_loop d model n g (sample_timesteps d) (x0, pos0) of
             (Inl e, pos') \<Rightarrow> (Inl e, Inference, pos')
           | (Inr x, pos') \<Rightarrow> (Inr (postprocess x), Training, pos')))"

section \<open>The transition as the specification words it\<close>

text \<open>
  The specification describes generation as a state machine: for \<open>t\<close> from \<open>T-1\<close> down
  to \<open>1\<close>, query the predictor at the current \<open>x\<close> and at \<open>t\<close> repeated across the batch,
  look up the scalars \<open>alpha[t]\<close>, \<open>alpha_hat[t]\<close> and \<open>beta[t]\<close>, take \<open>z\<close> fresh from the
  generator when \<open>n > 1\<close> and as the zero array when \<open>n = 1\<close>, and replace every entry of
  \<open>x\<close> by \<open>(1/sqrt(alpha_t)) * (x - ((1-alpha_t)/sqrt(1-alpha_hat_t)) * epsilon_hat) +
  sqrt(beta_t) * z\<close>.  The two definitions below follow these words, entry by entry and
  with the timestep as a natural number counted down; they are what the loop of the code
  is compared with.
\<close>

definition spec_update :: "real \<Rightarrow> real \<Rightarrow> real \<Rightarrow> batch \<Rightarrow> batch \<Rightarrow> batch \<Rightarrow> batch" where
  "spec_update alpha_t alpha_hat_t beta_t x epsilon_hat z =
     map (\<lambda>j. map (\<lambda>k. (1 / sqrt alpha_t) *
                          (x ! j ! k - ((1 - alpha_t) / sqrt (1 - alpha_hat_t)) * epsilon_hat ! j ! k)
                        + sqrt beta_t * z ! j ! k)
                  [0..<length (x ! j)])
         [0..<length x]"


text \<open>The predictor's contract: a prediction has the shape of the batch it is made for.\<close>

definition shape_preserving :: "predictor \<Rightarrow> bool" where
  "shape_preserving model =
     (\<forall>md x t y. model md x t = Inr y \<longrightarrow> map length y = map length x)"

section \<open>Inputs used in the examples\<close>

text \<open>A predictor that raises, one that returns a fixed tensor, and one that returns
  zeros; a generator that hands out one value for ever; a schedule of two steps.\<close>

definition failing_model :: predictor where
  "failing_model md x t = Inl ModelError"

definition echo_model :: "batch \<Rightarrow> predictor" where
  "echo_model epsilon md x t = Inr epsilon"

definition zero_model :: predictor where
  "zero_model md x t = Inr (zeros_like x)"

definition const_rng :: "real \<Rightarrow> rng" where
  "const_rng c k = c"



text \<open>A machine without limits and with exact arithmetic, and one that stores quarters
  only, accumulates in sixty-fourths and cannot create more than a thousand entries.\<close>

definition exact_machine :: machine where
  "exact_machine = \<lparr>creates = (\<lambda>n. Created), fl = (\<lambda>x. x), accum = (\<lambda>x. x)\<rparr>"

definition quarters :: "real \<Rightarrow> real" where
  "quarters x = real_of_int \<lfloor>x * 4 + 1 / 2\<rfloor> / 4"

definition sixty_fourths :: "real \<Rightarrow> real" where
  "sixty_fourths x = real_of_int \<lfloor>x * 64 + 1 / 2\<rfloor> / 64"

definition small_machine :: machine where
  "small_machine =
     \<lparr>creates = (\<lambda>n. if n \<le> 1000 then Created else Raises RuntimeError), fl = quarters,
      accum = sixty_fourths\<rparr>"

definition three_step :: diffusion where
  "three_step =
     \<lparr>noise_steps = 3, beta_start = 2/25, beta_end = 16/25, img_size = 1,
      beta = [2/25, 9/25, 16/25], alpha = [23/25, 16/25, 9/25],
      alpha_hat = [23/25, 368/625, 3312/15625]\<rparr>"

definition two_step :: diffusion where
  "two_step =
     \<lparr>noise_steps = 2, beta_start = 69/169, beta_end = 3/4, img_size = 1,
      beta = [69/169, 3/4], alpha = [100/169, 1/4], alpha_hat = [100/169, 25/169]\<rparr>"

section \<open>Facts about the schedule\<close>

lemma length_cumprod_from: "length (cumprod_from acc xs) = length xs"
  by (induction xs arbitrary: acc) simp_all

lemma cumprod_from_nth:
  "t < length xs \<Longrightarrow> cumprod_from acc xs ! t = acc * prod_list (take (Suc t) xs)"
proof (induction xs arbitrary: acc t)
  case Nil
  then show ?case by simp
next
  case (Cons x xs)
  show ?case
  proof (cases t)
    case 0
    then show ?thesis by simp
  next
    case (Suc k)
    with Cons.prems have "k < length xs" by simp
    from Cons.IH [OF this, of "acc * x"] Suc show ?thesis by (simp add: mult.assoc)
  qed
qed

lemma cumprod_nth: "t < length xs \<Longrightarrow> cumprod xs ! t = prod_list (take (Suc t) xs)"
  by (simp add: cumprod_def cumprod_from_nth)

lemma length_cumprod: "length (cumprod xs) = length xs"
  by (simp add: cumprod_def length_cumprod_from)

lemma cumprod_Suc:
  "Suc t < length xs \<Longrightarrow> cumprod xs ! Suc t = cumprod xs ! t * xs ! Suc t"
  by (simp add: cumprod_nth take_Suc_conv_app_nth [of "Suc t"])

lemma prod_list_unit_interval:
  "(\<And>x. x \<in> set xs \<Longrightarrow> 0 < x \<and> x \<le> (1::real)) \<Longrightarrow> 0 < prod_list xs \<and> prod_list xs \<le> 1"
proof (induction xs)
  case Nil
  then show ?case by simp
next
  case (Cons x xs)
  then have x: "0 < x" "x \<le> 1" and p: "0 < prod_list xs" "prod_list xs \<le> 1" by auto
  from x p have "x * prod_list xs \<le> 1 * 1" by (intro mult_mono) auto
  with x p show ?case by simp
qed

lemma linspace_Inr_iff: "(\<exists>b. linspace s e T = Inr b) \<longleftrightarrow> 0 \<le> T"
  by (auto simp: linspace_def)

lemma linspace_length: "linspace s e T = Inr b \<Longrightarrow> length b = nat T"
  by (auto simp: linspace_def split: if_splits)

lemma linspace_nth:
  "linspace s e T = Inr b \<Longrightarrow> t < nat T \<Longrightarrow>
     b ! t = s + real t * ((e - s) / real_of_int (T - 1))"
  by (auto simp: linspace_def split: if_splits)

lemma linspace_last:
  assumes "linspace s e T = Inr b" "2 \<le> T"
  shows "b ! nat (T - 1) = e"
proof -
  have "nat (T - 1) < nat T" using assms by simp
  from linspace_nth [OF assms(1) this] assms(2) show ?thesis by simp
qed

lemma Diffusion_init_Inr:
  "Diffusion_init T bs be sz = Inr d \<Longrightarrow>
     linspace bs be T = Inr (beta d) \<and> alpha d = map (\<lambda>x. 1 - x) (beta d) \<and>
     alpha_hat d = cumprod (alpha d) \<and> noise_steps d = T \<and> beta_start d = bs \<and>
     beta_end d = be \<and> img_size d = sz"
  by (auto simp: Diffusion_init_def prepare_noise_schedule_def split: sum.splits)


lemma Diffusion_init_lengths:
  assumes "Diffusion_init T bs be sz = Inr d"
  shows "length (beta d) = nat T" "length (alpha d) = nat T" "length (alpha_hat d) = nat T"
  using Diffusion_init_Inr [OF assms] linspace_length [of bs be T "beta d"]
  by (simp_all add: length_cumprod)

lemma linspace_bounds:
  assumes b: "linspace s e T = Inr b" and t: "t < nat T" and se: "s \<le> e"
  shows "s \<le> b ! t \<and> b ! t \<le> e"
proof (cases "T = 1")
  case True
  with b t se show ?thesis by (auto simp: linspace_def)
next
  case False
  with t have T: "2 \<le> T" by simp
  define r where "r = real t / real_of_int (T - 1)"
  have r: "0 \<le> r" "r \<le> 1" using T t by (simp_all add: r_def)
  have "b ! t = s + r * (e - s)"
    using linspace_nth [OF b t] by (simp add: r_def)
  moreover have "0 \<le> r * (e - s)" using r se by simp
  moreover have "r * (e - s) \<le> 1 * (e - s)" using r se by (intro mult_right_mono) simp_all
  ultimately show ?thesis by simp
qed

lemma linspace_mono:
  assumes b: "linspace s e T = Inr b" and t: "Suc t < nat T" and se: "s \<le> e"
  shows "b ! t \<le> b ! Suc t"
proof -
  have T: "2 \<le> T" using t by simp
  define c where "c = (e - s) / real_of_int (T - 1)"
  have c: "0 \<le> c" using T se by (simp add: c_def)
  have "b ! Suc t = s + real (Suc t) * c" using linspace_nth [OF b t] by (simp only: c_def)
  moreover have "b ! t = s + real t * c" using linspace_nth [OF b, of t] t by (simp only: c_def)
  ultimately have "b ! Suc t = b ! t + c" by (simp add: algebra_simps)
  with c show ?thesis by simp
qed

lemma alpha_unit_interval:
  assumes d: "Diffusion_init T bs be sz = Inr d" and v: "0 < bs" "bs \<le> be" "be < 1"
    and x: "x \<in> set (alpha d)"
  shows "0 < x \<and> x < 1"
proof -
  from x obtain t where t: "t < length (alpha d)" and xt: "x = alpha d ! t"
    by (auto simp: in_set_conv_nth)
  have len: "t < nat T" using t Diffusion_init_lengths(2) [OF d] by simp
  have lin: "linspace bs be T = Inr (beta d)" and a: "alpha d = map (\<lambda>x. 1 - x) (beta d)"
    using Diffusion_init_Inr [OF d] by simp_all
  have "bs \<le> beta d ! t \<and> beta d ! t \<le> be" using linspace_bounds [OF lin len v(2)] .
  moreover have "x = 1 - beta d ! t"
    using xt a len Diffusion_init_lengths(1) [OF d] by simp
  ultimately show ?thesis using v by simp
qed

lemma alpha_hat_unit_interval:
  assumes d: "Diffusion_init T bs be sz = Inr d" and v: "0 < bs" "bs \<le> be" "be < 1"
    and t: "t < nat T"
  shows "0 < alpha_hat d ! t \<and> alpha_hat d ! t < 1"
proof -
  have len: "length (alpha d) = nat T" by (rule Diffusion_init_lengths(2) [OF d])
  have ah: "alpha_hat d ! t = prod_list (take (Suc t) (alpha d))"
    using Diffusion_init_Inr [OF d] t len by (simp add: cumprod_nth)
  have split: "take (Suc t) (alpha d) = alpha d ! 0 # take t (drop 1 (alpha d))"
    using t len by (cases "alpha d") simp_all
  have a0: "0 < alpha d ! 0 \<and> alpha d ! 0 < 1"
    using alpha_unit_interval [OF d v, of "alpha d ! 0"] t len by simp
  have "\<And>x. x \<in> set (take t (drop 1 (alpha d))) \<Longrightarrow> 0 < x \<and> x \<le> 1"
  proof -
    fix x assume "x \<in> set (take t (drop 1 (alpha d)))"
    then have "x \<in> set (alpha d)" by (meson in_set_dropD in_set_takeD)
    from alpha_unit_interval [OF d v this] show "0 < x \<and> x \<le> 1" by simp
  qed
  from prod_list_unit_interval [OF this]
  have p: "0 < prod_list (take t (drop 1 (alpha d)))" "prod_list (take t (drop 1 (alpha d))) \<le> 1"
    by simp_all
  have "alpha d ! 0 * prod_list (take t (drop 1 (alpha d))) \<le> alpha d ! 0 * 1"
    using a0 p by (intro mult_left_mono) simp_all
  then have "alpha d ! 0 * prod_list (take t (drop 1 (alpha d))) < 1" using a0 by linarith
  moreover have "0 < alpha d ! 0 * prod_list (take t (drop 1 (alpha d)))"
    using a0 p by (intro mult_pos_pos) simp_all
  moreover have "alpha_hat d ! t = alpha d ! 0 * prod_list (take t (drop 1 (alpha d)))"
    by (simp only: ah split prod_list.Cons)
  ultimately show ?thesis by simp
qed

lemma alpha_hat_step:
  assumes d: "Diffusion_init T bs be sz = Inr d" and t: "Suc t < nat T"
  shows "alpha_hat d ! Suc t = alpha_hat d ! t * alpha d ! Suc t"
  using Diffusion_init_Inr [OF d] t Diffusion_init_lengths(2) [OF d]
  by (simp add: cumprod_Suc)

lemma alpha_hat_antimono:
  assumes d: "Diffusion_init T bs be sz = Inr d" and v: "0 < bs" "bs \<le> be" "be < 1"
    and t: "Suc t < nat T"
  shows "alpha_hat d ! Suc t \<le> alpha_hat d ! t"
proof -
  have "0 < alpha_hat d ! t" using alpha_hat_unit_interval [OF d v, of t] t by simp
  moreover have "alpha d ! Suc t \<le> 1"
    using alpha_unit_interval [OF d v, of "alpha d ! Suc t"] t Diffusion_init_lengths(2) [OF d]
    by simp
  ultimately have "alpha_hat d ! t * alpha d ! Suc t \<le> alpha_hat d ! t * 1"
    by (intro mult_left_mono) simp_all
  then show ?thesis by (simp add: alpha_hat_step [OF d t])
qed

section \<open>Facts about the schedule on a machine\<close>

lemma length_cumprod_acc: "length (cumprod_acc a f p xs) = length xs"
  by (induction xs arbitrary: p) simp_all

lemma length_cumprod_on: "length (cumprod_on m xs) = length xs"
  by (simp add: cumprod_on_def length_cumprod_acc)

lemma cumprod_acc_exact:
  "(\<And>x. a x = x) \<Longrightarrow> (\<And>x. f x = x) \<Longrightarrow> cumprod_acc a f p xs = cumprod_from p xs"
  by (induction xs arbitrary: p) simp_all

lemma rounding_unit:
  assumes "rounding f" "0 \<le> x" "x \<le> 1"
  shows "0 \<le> f x" "f x \<le> 1"
proof -
  have m: "\<And>x y. x \<le> y \<Longrightarrow> f x \<le> f y" and z: "f 0 = 0" and o: "f 1 = 1"
    using assms(1) by (auto simp: rounding_def)
  show "0 \<le> f x" using m [OF assms(2)] z by simp
  show "f x \<le> 1" using m [OF assms(3)] o by simp
qed

lemma rounding_mono: "rounding f \<Longrightarrow> x \<le> y \<Longrightarrow> f x \<le> f y"
  by (auto simp: rounding_def)

lemma rounding_idem: "rounding f \<Longrightarrow> f (f x) = f x"
  by (auto simp: rounding_def)

text \<open>The running product of values in the unit interval, from an accumulator in the unit
  interval: every entry is between 0 and the stored accumulator, and no entry is above
  the one before it.\<close>

lemma cumprod_acc_unit:
  assumes ra: "rounding a" and rf: "rounding f"
  shows "0 \<le> p \<Longrightarrow> p \<le> 1 \<Longrightarrow> a p = p \<Longrightarrow> (\<And>x. x \<in> set xs \<Longrightarrow> 0 \<le> x \<and> x \<le> 1) \<Longrightarrow>
           t < length xs \<Longrightarrow>
           0 \<le> cumprod_acc a f p xs ! t \<and> cumprod_acc a f p xs ! t \<le> f p \<and>
           (Suc t < length xs \<longrightarrow> cumprod_acc a f p xs ! Suc t \<le> cumprod_acc a f p xs ! t)"
proof (induction xs arbitrary: p t)
  case Nil
  then show ?case by simp
next
  case (Cons x xs)
  define q where "q = a (p * x)"
  have x: "0 \<le> x" "x \<le> 1" using Cons.prems(4) [of x] by simp_all
  have px0: "0 \<le> p * x" using Cons.prems(1) x by simp
  have pxp: "p * x \<le> p * 1" using Cons.prems(1) x by (intro mult_left_mono) simp_all
  then have px1: "p * x \<le> 1" using Cons.prems(2) by simp
  have q0: "0 \<le> q" and q1: "q \<le> 1" using rounding_unit [OF ra px0 px1] by (simp_all add: q_def)
  have qp: "q \<le> p" using rounding_mono [OF ra pxp] Cons.prems(3) by (simp add: q_def)
  have qq: "a q = q" by (simp add: q_def rounding_idem [OF ra])
  have fq: "0 \<le> f q" "f q \<le> f p"
    using rounding_unit(1) [OF rf q0 q1] rounding_mono [OF rf qp] by simp_all
  have xs: "\<And>y. y \<in> set xs \<Longrightarrow> 0 \<le> y \<and> y \<le> 1" using Cons.prems(4) by simp
  have IH: "0 \<le> cumprod_acc a f q xs ! u \<and> cumprod_acc a f q xs ! u \<le> f q \<and>
           (Suc u < length xs \<longrightarrow> cumprod_acc a f q xs ! Suc u \<le> cumprod_acc a f q xs ! u)"
    if "u < length xs" for u
    by (rule Cons.IH) (use q0 q1 qq xs that in simp_all)
  show ?case
  proof (cases t)
    case 0
    have "Suc 0 < length (x # xs) \<longrightarrow> cumprod_acc a f q xs ! 0 \<le> f q"
      using IH [of 0] by simp
    with fq 0 show ?thesis by (simp add: q_def [symmetric])
  next
    case (Suc k)
    with Cons.prems(5) have k: "k < length xs" by simp
    from IH [OF k] fq Suc show ?thesis by (simp add: q_def [symmetric])
  qed
qed

lemma cumprod_on_unit:
  assumes s: "sound_arithmetic m"
    and xs: "\<And>x. x \<in> set xs \<Longrightarrow> 0 \<le> x \<and> x \<le> 1"
    and t: "t < length xs"
  shows "0 \<le> cumprod_on m xs ! t \<and> cumprod_on m xs ! t \<le> 1 \<and>
         (Suc t < length xs \<longrightarrow> cumprod_on m xs ! Suc t \<le> cumprod_on m xs ! t)"
proof -
  have ra: "rounding (accum m)" and rf: "rounding (fl m)"
    using s by (simp_all add: sound_arithmetic_def)
  have a1: "accum m 1 = 1" and f1: "fl m 1 = 1" using ra rf by (simp_all add: rounding_def)
  have "0 \<le> cumprod_acc (accum m) (fl m) 1 xs ! t \<and>
        cumprod_acc (accum m) (fl m) 1 xs ! t \<le> fl m 1 \<and>
        (Suc t < length xs \<longrightarrow>
           cumprod_acc (accum m) (fl m) 1 xs ! Suc t \<le> cumprod_acc (accum m) (fl m) 1 xs ! t)"
    by (rule cumprod_acc_unit [OF ra rf]) (use a1 xs t in simp_all)
  then show ?thesis by (simp add: cumprod_on_def f1)
qed

lemma cumprod_on_zero:
  assumes s: "sound_arithmetic m" and l: "0 < length xs" and x: "fl m (xs ! 0) = xs ! 0"
  shows "cumprod_on m xs ! 0 = xs ! 0"
proof -
  have "accum m (fl m (xs ! 0)) = fl m (xs ! 0)" using s by (simp add: sound_arithmetic_def)
  then have "accum m (xs ! 0) = xs ! 0" by (simp only: x)
  with l x show ?thesis by (cases xs) (simp_all add: cumprod_on_def)
qed

lemma linspace_on_Created:
  assumes "0 \<le> T" "T < 2 ^ 63" "creates m (nat T) = Created"
  shows "linspace_on m s e T =
           Inr (if T = 1 then [fl m s]
                else map (\<lambda>i. fl m (fl m s + real i * ((fl m e - fl m s) / real_of_int (T - 1))))
                       [0..<nat T])"
  using assms by (simp add: linspace_on_def)

lemma linspace_on_exact:
  assumes "0 \<le> T" "T < 2 ^ 63" "creates m (nat T) = Created" "exact_arithmetic m"
  shows "linspace_on m s e T = linspace s e T"
  using assms by (simp add: linspace_on_def linspace_def exact_arithmetic_def)

lemma Diffusion_new_exact:
  assumes "0 \<le> T" "T < 2 ^ 63" "creates m (nat T) = Created" "exact_arithmetic m"
  shows "Diffusion_new m T bs be sz = Diffusion_init T bs be sz"
proof -
  have f: "\<And>x. fl m x = x" and a: "\<And>x. accum m x = x"
    using assms(4) by (simp_all add: exact_arithmetic_def)
  have c: "cumprod_on m xs = cumprod xs" for xs
    by (simp add: cumprod_on_def cumprod_def cumprod_acc_exact [OF a f])
  show ?thesis
    using linspace_on_exact [OF assms, of bs be]
    by (simp add: Diffusion_new_def Diffusion_init_def prepare_noise_schedule_def c f
        split: sum.splits)
qed

lemma Diffusion_new_Inr:
  "Diffusion_new m T bs be sz = Inr d \<Longrightarrow>
     linspace_on m bs be T = Inr (beta d) \<and> alpha d = map (\<lambda>x. fl m (1 - x)) (beta d) \<and>
     alpha_hat d = cumprod_on m (alpha d) \<and> noise_steps d = T \<and> beta_start d = bs \<and>
     beta_end d = be \<and> img_size d = sz"
  by (auto simp: Diffusion_new_def split: sum.splits)

lemma linspace_on_length: "linspace_on m s e T = Inr b \<Longrightarrow> length b = nat T"
  by (auto simp: linspace_on_def split: if_splits error_or_ok.splits)

lemma linspace_on_nonneg: "linspace_on m s e T = Inr b \<Longrightarrow> 0 \<le> T \<and> T < 2 ^ 63"
  by (auto simp: linspace_on_def split: if_splits error_or_ok.splits)

lemma Diffusion_new_lengths:
  assumes "Diffusion_new m T bs be sz = Inr d"
  shows "length (beta d) = nat T" "length (alpha d) = nat T" "length (alpha_hat d) = nat T"
    "noise_steps d = T"
  using Diffusion_new_Inr [OF assms] linspace_on_length [of m bs be T "beta d"]
  by (simp_all add: length_cumprod_on)

lemma linspace_on_Inr:
  "linspace_on m s e T = Inr b \<Longrightarrow>
     b = (if T = 1 then [fl m s]
          else map (\<lambda>i. fl m (fl m s + real i * ((fl m e - fl m s) / real_of_int (T - 1))))
                 [0..<nat T])"
  by (auto simp: linspace_on_def split: if_splits error_or_ok.splits)

text \<open>The values of \<open>linspace_on\<close> lie between the stored bounds.\<close>

lemma linspace_on_bounds:
  assumes b: "linspace_on m s e T = Inr b" and t: "t < nat T" and r: "rounding (fl m)"
    and se: "s \<le> e"
  shows "fl m s \<le> b ! t \<and> b ! t \<le> fl m e"
proof -
  note E = linspace_on_Inr [OF b]
  have fe: "fl m s \<le> fl m e" using rounding_mono [OF r se] .
  show ?thesis
  proof (cases "T = 1")
    case True
    with E t fe show ?thesis by simp
  next
    case False
    with t have T2: "2 \<le> T" by simp
    define q where "q = real t / real_of_int (T - 1)"
    have q: "0 \<le> q" "q \<le> 1" using T2 t by (simp_all add: q_def)
    define v where "v = fl m s + q * (fl m e - fl m s)"
    have bt: "b ! t = fl m v"
      using False t by (simp add: E v_def q_def)
    have "0 \<le> q * (fl m e - fl m s)" using q fe by simp
    moreover have "q * (fl m e - fl m s) \<le> 1 * (fl m e - fl m s)"
      using q fe by (intro mult_right_mono) simp_all
    ultimately have v: "fl m s \<le> v" "v \<le> fl m e" by (simp_all add: v_def)
    from rounding_mono [OF r v(1)] rounding_mono [OF r v(2)]
    show ?thesis by (simp add: bt rounding_idem [OF r])
  qed
qed

lemma linspace_on_first:
  assumes b: "linspace_on m s e T = Inr b" and T: "0 < T" and r: "rounding (fl m)"
  shows "b ! 0 = fl m s"
proof -
  show ?thesis using T
    by (cases "T = 1") (simp_all add: linspace_on_Inr [OF b] rounding_idem [OF r])
qed

lemma linspace_on_last:
  assumes b: "linspace_on m s e T = Inr b" and T: "2 \<le> T" and r: "rounding (fl m)"
  shows "b ! nat (T - 1) = fl m e"
proof -
  have "nat (T - 1) < nat T" using T by simp
  with T show ?thesis
    by (simp add: linspace_on_Inr [OF b] rounding_idem [OF r])
qed

lemma Diffusion_new_total:
  assumes "0 \<le> T" "T < 2 ^ 63" "creates m (nat T) = Created"
  shows "\<exists>d. Diffusion_new m T bs be sz = Inr d"
  using linspace_on_Created [OF assms, of bs be] by (simp add: Diffusion_new_def)

lemma Diffusion_new_alpha_unit:
  assumes d: "Diffusion_new m T bs be sz = Inr d" and r: "rounding (fl m)"
    and v: "0 \<le> bs" "bs \<le> be" "be \<le> 1" and x: "x \<in> set (alpha d)"
  shows "0 \<le> x \<and> x \<le> 1 \<and> fl m x = x"
proof -
  note I = Diffusion_new_Inr [OF d]
  note L = Diffusion_new_lengths [OF d]
  from x obtain t where t: "t < nat T" and xt: "x = alpha d ! t"
    using L by (auto simp: in_set_conv_nth)
  have lin: "linspace_on m bs be T = Inr (beta d)" using I by simp
  have b: "fl m bs \<le> beta d ! t" "beta d ! t \<le> fl m be"
    using linspace_on_bounds [OF lin t r v(2)] by simp_all
  have "0 \<le> fl m bs" using rounding_unit(1) [OF r v(1)] v by simp
  moreover have "fl m be \<le> 1" using rounding_unit(2) [OF r _ v(3)] v by simp
  ultimately have u: "0 \<le> 1 - beta d ! t" "1 - beta d ! t \<le> 1" using b by simp_all
  have a: "x = fl m (1 - beta d ! t)" using xt I t L by simp
  show ?thesis using rounding_unit [OF r u] rounding_idem [OF r] by (simp add: a)
qed

lemma rounding_quarters: "rounding quarters"
proof -
  have m: "quarters x \<le> quarters y" if "x \<le> y" for x y
  proof -
    have "\<lfloor>x * 4 + 1 / 2\<rfloor> \<le> \<lfloor>y * 4 + 1 / 2\<rfloor>" using that by (intro floor_mono) simp
    then show ?thesis by (simp add: quarters_def divide_right_mono)
  qed
  have i: "quarters (quarters x) = quarters x" for x
  proof -
    have "\<lfloor>real_of_int \<lfloor>x * 4 + 1 / 2\<rfloor> + 1 / 2\<rfloor> = \<lfloor>x * 4 + 1 / 2\<rfloor>" by linarith
    then show ?thesis by (simp add: quarters_def)
  qed
  have z: "quarters 0 = 0" "quarters 1 = 1" by (simp_all add: quarters_def)
  from m i z show ?thesis unfolding rounding_def by blast
qed

lemma rounding_sixty_fourths: "rounding sixty_fourths"
proof -
  have m: "sixty_fourths x \<le> sixty_fourths y" if "x \<le> y" for x y
  proof -
    have "\<lfloor>x * 64 + 1 / 2\<rfloor> \<le> \<lfloor>y * 64 + 1 / 2\<rfloor>" using that by (intro floor_mono) simp
    then show ?thesis by (simp add: sixty_fourths_def divide_right_mono)
  qed
  have i: "sixty_fourths (sixty_fourths x) = sixty_fourths x" for x
  proof -
    have "\<lfloor>real_of_int \<lfloor>x * 64 + 1 / 2\<rfloor> + 1 / 2\<rfloor> = \<lfloor>x * 64 + 1 / 2\<rfloor>" by linarith
    then show ?thesis by (simp add: sixty_fourths_def)
  qed
  have z: "sixty_fourths 0 = 0" "sixty_fourths 1 = 1" by (simp_all add: sixty_fourths_def)
  from m i z show ?thesis unfolding rounding_def by blast
qed

lemma sixty_fourths_quarters: "sixty_fourths (quarters x) = quarters x"
proof -
  have "\<lfloor>real_of_int (16 * \<lfloor>x * 4 + 1 / 2\<rfloor>) + 1 / 2\<rfloor> = 16 * \<lfloor>x * 4 + 1 / 2\<rfloor>" by linarith
  then show ?thesis by (simp add: sixty_fourths_def quarters_def)
qed

lemma sound_small_machine: "sound_arithmetic small_machine"
  by (simp add: sound_arithmetic_def small_machine_def rounding_quarters
      rounding_sixty_fourths sixty_fourths_quarters)

lemma exact_exact_machine: "exact_arithmetic exact_machine"
  by (simp add: exact_arithmetic_def exact_machine_def)

lemma quarters_values:
  "quarters (3/10) = 1/4" "quarters (9/10) = 1" "quarters (1/4) = 1/4" "quarters 1 = 1"
  "quarters (3/4) = 3/4" "quarters 0 = 0" "quarters (1/2) = 1/2" "quarters (3/8) = 1/2"
  by (simp_all add: quarters_def)

lemma sixty_fourths_values:
  "sixty_fourths (3/4) = 3/4" "sixty_fourths 0 = 0" "sixty_fourths (1/2) = 1/2"
  "sixty_fourths (3/8) = 3/8"
  by (simp_all add: sixty_fourths_def)

lemma small_machine_example:
  "Diffusion_new small_machine 2 (3/10) (9/10) 64 =
     Inr \<lparr>noise_steps = 2, beta_start = 3/10, beta_end = 9/10, img_size = 64,
          beta = [1/4, 1], alpha = [3/4, 0], alpha_hat = [3/4, 0]\<rparr>"
  by (simp add: Diffusion_new_def linspace_on_def cumprod_on_def small_machine_def
      quarters_values sixty_fourths_values numeral_2_eq_2)

lemma small_machine_reversed_bounds:
  "Diffusion_new small_machine 2 (1/2) (1/4) 64 =
     Inr \<lparr>noise_steps = 2, beta_start = 1/2, beta_end = 1/4, img_size = 64,
          beta = [1/2, 1/4], alpha = [1/2, 3/4], alpha_hat = [1/2, 1/2]\<rparr>"
  by (simp add: Diffusion_new_def linspace_on_def cumprod_on_def small_machine_def
      quarters_values sixty_fourths_values numeral_2_eq_2)

lemma three_step_new: "Diffusion_new exact_machine 3 (2/25) (16/25) 1 = Inr three_step"
  by (simp add: Diffusion_new_def linspace_on_def cumprod_on_def exact_machine_def
      three_step_def numeral_3_eq_3)

section \<open>Claims about schedule construction\<close>

text \<open>
  C2, as stated.  The claim asks \<open>beta[T-1] == beta_end\<close> for every \<open>T > 0\<close>.  With one
  step \<open>torch.linspace\<close> returns the single value \<open>beta_start\<close>, so for \<open>T = 1\<close> and
  \<open>beta_start = 0.1 < beta_end = 0.2\<close> the last entry of \<open>beta\<close> is \<open>0.1\<close>.
\<close>

theorem schedule_single_step_counterexample:
  "Diffusion_init 1 (1/10) (1/5) 64 =
     Inr \<lparr>noise_steps = 1, beta_start = 1/10, beta_end = 1/5, img_size = 64,
          beta = [1/10], alpha = [9/10], alpha_hat = [9/10]\<rparr> \<and>
   beta (projr (Diffusion_init 1 (1/10) (1/5) 64)) ! nat (1 - 1) \<noteq> 1/5"
  by (simp add: Diffusion_init_def prepare_noise_schedule_def linspace_def cumprod_def)

text \<open>
  C2, amended.  On a machine that takes the step count and creates the tensors, for every
  \<open>T > 0\<close> and \<open>0 < beta_start < beta_end < 1\<close>, the construction returns a schedule of
  three sequences of length \<open>T\<close> whose values are stored as float32, with \<open>fl\<close> the
  rounding to a stored value.  \<open>beta\<close> is the single value \<open>fl beta_start\<close> when \<open>T = 1\<close>;
  \<open>beta[0]\<close> is the stored \<open>beta_start\<close> and, when \<open>T \<ge> 2\<close>, \<open>beta[T-1]\<close> is the stored
  \<open>beta_end\<close>, with every \<open>beta[t]\<close> between the two; \<open>alpha[t]\<close> is the stored
  \<open>1 - beta[t]\<close>; \<open>alpha_hat\<close> is the running product of \<open>alpha\<close> as the machine rounds it,
  with \<open>alpha_hat[0] = alpha[0]\<close>, non-increasing, and with every entry in \<open>[0, 1]\<close>.  An
  entry of \<open>alpha_hat\<close> can be 0: a bound close to 1 is stored as 1, and a small product
  is stored as 0.  Where the arithmetic of the machine is exact, the schedule is that of
  the exact computation: \<open>beta[t] = beta_start + t * (beta_end - beta_start) / (T - 1)\<close>
  when \<open>T \<ge> 2\<close>, \<open>beta[0] = beta_start\<close>, \<open>beta[T-1] = beta_end\<close> when \<open>T \<ge> 2\<close>,
  \<open>alpha[t] = 1 - beta[t]\<close>, and \<open>alpha_hat[t]\<close> is the product of \<open>alpha[0..t]\<close> and lies in
  \<open>(0, 1]\<close>.
\<close>

theorem schedule_construction:
  assumes T: "0 < T" "T < 2 ^ 63" and v: "0 < bs" "bs < be" "be < 1"
    and c: "creates m (nat T) = Created" and s: "sound_arithmetic m"
  shows "\<exists>d. Diffusion_new m T bs be sz = Inr d \<and>
           length (beta d) = nat T \<and> length (alpha d) = nat T \<and>
           length (alpha_hat d) = nat T \<and>
           (T = 1 \<longrightarrow> beta d = [fl m bs]) \<and>
           (\<forall>t < nat T. fl m bs \<le> beta d ! t \<and> beta d ! t \<le> fl m be) \<and>
           (\<forall>t < nat T. alpha d ! t = fl m (1 - beta d ! t)) \<and>
           beta d ! 0 = fl m bs \<and>
           (2 \<le> T \<longrightarrow> beta d ! nat (T - 1) = fl m be) \<and>
           alpha_hat d ! 0 = alpha d ! 0 \<and>
           (\<forall>t. Suc t < nat T \<longrightarrow> alpha_hat d ! Suc t \<le> alpha_hat d ! t) \<and>
           (\<forall>t < nat T. 0 \<le> alpha_hat d ! t \<and> alpha_hat d ! t \<le> 1) \<and>
           (exact_arithmetic m \<longrightarrow>
              Diffusion_init T bs be sz = Inr d \<and> beta d ! 0 = bs \<and>
              (2 \<le> T \<longrightarrow> beta d ! nat (T - 1) = be) \<and>
              (\<forall>t < nat T. 2 \<le> T \<longrightarrow>
                 beta d ! t = bs + real t * ((be - bs) / real_of_int (T - 1))) \<and>
              (\<forall>t < nat T. alpha d ! t = 1 - beta d ! t \<and>
                           alpha_hat d ! t = prod_list (take (Suc t) (alpha d)) \<and>
                           0 < alpha_hat d ! t))"
proof -
  have T0: "0 \<le> T" using T by simp
  have r: "rounding (fl m)" using s by (simp add: sound_arithmetic_def)
  from Diffusion_new_total [OF T0 T(2) c, of bs be sz]
  obtain d where d: "Diffusion_new m T bs be sz = Inr d" by auto
  note I = Diffusion_new_Inr [OF d]
  note L = Diffusion_new_lengths [OF d]
  have lin: "linspace_on m bs be T = Inr (beta d)" using I by simp
  have v': "0 \<le> bs" "bs \<le> be" "be \<le> 1" using v by simp_all
  note A = Diffusion_new_alpha_unit [OF d r v']
  have A': "\<And>x. x \<in> set (alpha d) \<Longrightarrow> 0 \<le> x \<and> x \<le> 1" using A by blast
  have ah: "alpha_hat d = cumprod_on m (alpha d)" using I by simp
  have c1: "T = 1 \<longrightarrow> beta d = [fl m bs]" using linspace_on_Inr [OF lin] by simp
  have c3: "\<forall>t < nat T. fl m bs \<le> beta d ! t \<and> beta d ! t \<le> fl m be"
    using linspace_on_bounds [OF lin _ r v'(2)] by blast
  have c4: "\<forall>t < nat T. alpha d ! t = fl m (1 - beta d ! t)" using I L by simp
  have c5: "beta d ! 0 = fl m bs" by (rule linspace_on_first [OF lin T(1) r])
  have c6: "2 \<le> T \<longrightarrow> beta d ! nat (T - 1) = fl m be"
    using linspace_on_last [OF lin _ r] by blast
  have c7: "alpha_hat d ! 0 = alpha d ! 0"
  proof -
    have l: "0 < length (alpha d)" using L T by simp
    then have "alpha d ! 0 \<in> set (alpha d)" by simp
    from A [OF this] have "fl m (alpha d ! 0) = alpha d ! 0" by simp
    from cumprod_on_zero [OF s l this] show ?thesis by (simp add: ah)
  qed
  have c9: "\<forall>t. Suc t < nat T \<longrightarrow> alpha_hat d ! Suc t \<le> alpha_hat d ! t"
    using cumprod_on_unit [OF s A'] L by (simp add: ah)
  have c10: "\<forall>t < nat T. 0 \<le> alpha_hat d ! t \<and> alpha_hat d ! t \<le> 1"
    using cumprod_on_unit [OF s A'] L by (simp add: ah)
  have c11: "exact_arithmetic m \<longrightarrow>
              Diffusion_init T bs be sz = Inr d \<and> beta d ! 0 = bs \<and>
              (2 \<le> T \<longrightarrow> beta d ! nat (T - 1) = be) \<and>
              (\<forall>t < nat T. 2 \<le> T \<longrightarrow>
                 beta d ! t = bs + real t * ((be - bs) / real_of_int (T - 1))) \<and>
              (\<forall>t < nat T. alpha d ! t = 1 - beta d ! t \<and>
                           alpha_hat d ! t = prod_list (take (Suc t) (alpha d)) \<and>
                           0 < alpha_hat d ! t)"
  proof
    assume e: "exact_arithmetic m"
    then have e': "\<And>x. fl m x = x" by (simp add: exact_arithmetic_def)
    have di: "Diffusion_init T bs be sz = Inr d"
      using Diffusion_new_exact [OF T0 T(2) c e, of bs be sz] d by simp
    note J = Diffusion_init_Inr [OF di]
    have li: "linspace bs be T = Inr (beta d)" using J by simp
    have b0: "beta d ! 0 = bs" using c5 e' by simp
    have bl: "2 \<le> T \<longrightarrow> beta d ! nat (T - 1) = be" using c6 e' by simp
    have f: "\<forall>t < nat T. 2 \<le> T \<longrightarrow>
                 beta d ! t = bs + real t * ((be - bs) / real_of_int (T - 1))"
      using linspace_nth [OF li] by blast
    have p: "\<forall>t < nat T. alpha d ! t = 1 - beta d ! t \<and>
                           alpha_hat d ! t = prod_list (take (Suc t) (alpha d)) \<and>
                           0 < alpha_hat d ! t"
      using alpha_hat_unit_interval [OF di v(1) v'(2) v(3)] J L by (simp add: cumprod_nth)
    from di b0 bl f p show "Diffusion_init T bs be sz = Inr d \<and> beta d ! 0 = bs \<and>
              (2 \<le> T \<longrightarrow> beta d ! nat (T - 1) = be) \<and>
              (\<forall>t < nat T. 2 \<le> T \<longrightarrow>
                 beta d ! t = bs + real t * ((be - bs) / real_of_int (T - 1))) \<and>
              (\<forall>t < nat T. alpha d ! t = 1 - beta d ! t \<and>
                           alpha_hat d ! t = prod_list (take (Suc t) (alpha d)) \<and>
                           0 < alpha_hat d ! t)"
      by blast
  qed
  from d L(1-3) c1 c3 c4 c5 c6 c7 c9 c10 c11 show ?thesis by blast
qed

theorem schedule_construction_witness:
  "(0::int) < 2 \<and> (2::int) < 2 ^ 63 \<and> (0::real) < 3/10 \<and> (3/10 :: real) < 9/10 \<and>
   (9/10 :: real) < 1 \<and> creates small_machine (nat 2) = Created \<and>
   sound_arithmetic small_machine \<and>
   Diffusion_new small_machine 2 (3/10) (9/10) 64 =
     Inr \<lparr>noise_steps = 2, beta_start = 3/10, beta_end = 9/10, img_size = 64,
          beta = [1/4, 1], alpha = [3/4, 0], alpha_hat = [3/4, 0]\<rparr> \<and>
   [1/4, 1 :: real] ! nat (2 - 1) = fl small_machine (9/10) \<and>
   [3/4, 0 :: real] ! Suc 0 \<le> [3/4, 0 :: real] ! 0 \<and>
   (0::int) < 3 \<and> (3::int) < 2 ^ 63 \<and> (0::real) < 2/25 \<and> (2/25 :: real) < 16/25 \<and>
   (16/25 :: real) < 1 \<and> creates exact_machine (nat 3) = Created \<and>
   sound_arithmetic exact_machine \<and> exact_arithmetic exact_machine \<and>
   Diffusion_new exact_machine 3 (2/25) (16/25) 1 = Inr three_step \<and>
   Diffusion_init 3 (2/25) (16/25) 1 = Inr three_step \<and>
   beta three_step ! nat (3 - 1) = 16/25 \<and> 0 < alpha_hat three_step ! 2"
proof -
  let ?d = "\<lparr>noise_steps = 2, beta_start = 3/10, beta_end = 9/10, img_size = 64,
          beta = [1/4, 1], alpha = [3/4, 0], alpha_hat = [3/4, 0 :: real]\<rparr>"
  have h: "(0::int) < 2" "(2::int) < 2 ^ 63" "(0::real) < 3/10" "(3/10 :: real) < 9/10"
    "(9/10 :: real) < 1"
    by simp_all
  have c: "creates small_machine (nat 2) = Created" by (simp add: small_machine_def)
  from schedule_construction [OF h c sound_small_machine, of 64]
  obtain d where d: "Diffusion_new small_machine 2 (3/10) (9/10) 64 = Inr d"
    and e: "(2::int) \<le> 2 \<longrightarrow> beta d ! nat (2 - 1) = fl small_machine (9/10)"
    and a: "\<forall>t. Suc t < nat 2 \<longrightarrow> alpha_hat d ! Suc t \<le> alpha_hat d ! t"
    by blast
  from d have dd: "d = ?d" by (simp add: small_machine_example)
  have p1: "[1/4, 1 :: real] ! nat (2 - 1) = fl small_machine (9/10)"
    using e by (simp add: dd)
  have p2: "[3/4, 0 :: real] ! Suc 0 \<le> [3/4, 0 :: real] ! 0"
    using a [rule_format, of 0] by (simp add: dd)
  have h': "(0::int) < 3" "(3::int) < 2 ^ 63" "(0::real) < 2/25" "(2/25 :: real) < 16/25"
    "(16/25 :: real) < 1"
    by simp_all
  have c': "creates exact_machine (nat 3) = Created" by (simp add: exact_machine_def)
  have se: "sound_arithmetic exact_machine"
    by (simp add: sound_arithmetic_def exact_machine_def rounding_def)
  from schedule_construction [OF h' c' se, of 1] exact_exact_machine
  obtain d' where d': "Diffusion_new exact_machine 3 (2/25) (16/25) 1 = Inr d'"
    and i': "Diffusion_init 3 (2/25) (16/25) 1 = Inr d'"
    and e': "(2::int) \<le> 3 \<longrightarrow> beta d' ! nat (3 - 1) = 16/25"
    and q': "\<forall>t < nat 3. alpha d' ! t = 1 - beta d' ! t \<and>
                           alpha_hat d' ! t = prod_list (take (Suc t) (alpha d')) \<and>
                           0 < alpha_hat d' ! t"
    by blast
  have dd': "d' = three_step" using d' three_step_new by simp
  have p3: "beta three_step ! nat (3 - 1) = 16/25" using e' by (simp add: dd')
  have p4: "0 < alpha_hat three_step ! 2" using q' [rule_format, of 2] by (simp add: dd')
  have p5: "Diffusion_init 3 (2/25) (16/25) 1 = Inr three_step" using i' by (simp add: dd')
  from h c sound_small_machine small_machine_example p1 p2 h' c' se exact_exact_machine
    three_step_new p5 p3 p4
  show ?thesis by (intro conjI)
qed

text \<open>
  C5, as stated.  The constructor has no check of its arguments.  It returns a schedule
  for \<open>noise_steps = 0\<close> (the empty one), for \<open>beta_end \<le> beta_start\<close>, and for bounds
  outside \<open>(0, 1)\<close> with \<open>beta_start \<le> 0\<close>.
\<close>

theorem init_accepts_invalid_counterexample:
  "Diffusion_init 0 (1/10) (1/5) 64 =
     Inr \<lparr>noise_steps = 0, beta_start = 1/10, beta_end = 1/5, img_size = 64,
          beta = [], alpha = [], alpha_hat = []\<rparr> \<and>
   Diffusion_init 2 (1/2) (1/4) 64 =
     Inr \<lparr>noise_steps = 2, beta_start = 1/2, beta_end = 1/4, img_size = 64,
          beta = [1/2, 1/4], alpha = [1/2, 3/4], alpha_hat = [1/2, 3/8]\<rparr> \<and>
   Diffusion_init 2 (- 1) 2 64 =
     Inr \<lparr>noise_steps = 2, beta_start = - 1, beta_end = 2, img_size = 64,
          beta = [- 1, 2], alpha = [2, - 1], alpha_hat = [2, - 2]\<rparr>"
  by (simp add: Diffusion_init_def prepare_noise_schedule_def linspace_def cumprod_def
      upt_rec numeral_nat)

text \<open>
  C5, amended.  Schedule construction checks none of its arguments itself and fails only
  where the library does: with \<open>RuntimeError\<close> when \<open>noise_steps\<close> is a negative 64-bit
  integer, with an error of the library when \<open>noise_steps\<close> does not fit a 64-bit
  integer, and with the library's exception when the machine cannot create tensors of
  \<open>noise_steps\<close> entries.  For every other \<open>noise_steps\<close>, and whatever the bounds
  (\<open>noise_steps = 0\<close>, \<open>beta_start \<le> 0\<close>, \<open>beta_end \<le> beta_start\<close> and bounds outside
  \<open>(0, 1)\<close> included), it returns a schedule of \<open>noise_steps\<close> values that records the
  arguments as given.
\<close>

theorem init_failure_cases:
  "(T < 0 \<and> - (2 ^ 63) \<le> T \<longrightarrow> Diffusion_new m T bs be sz = Inl RuntimeError) \<and>
   (T < - (2 ^ 63) \<or> 2 ^ 63 \<le> T \<longrightarrow> isl (Diffusion_new m T bs be sz)) \<and>
   (0 \<le> T \<and> T < 2 ^ 63 \<and> creates m (nat T) = Raises e \<longrightarrow>
      Diffusion_new m T bs be sz = Inl e) \<and>
   (0 \<le> T \<and> T < 2 ^ 63 \<and> creates m (nat T) = Created \<longrightarrow>
      (\<exists>d. Diffusion_new m T bs be sz = Inr d \<and> length (beta d) = nat T \<and>
           length (alpha d) = nat T \<and> length (alpha_hat d) = nat T \<and>
           noise_steps d = T \<and> beta_start d = bs \<and> beta_end d = be))"
proof (intro conjI impI)
  assume "T < 0 \<and> - (2 ^ 63) \<le> T"
  then show "Diffusion_new m T bs be sz = Inl RuntimeError"
    by (auto simp: Diffusion_new_def linspace_on_def)
next
  assume "T < - (2 ^ 63) \<or> 2 ^ 63 \<le> T"
  then show "isl (Diffusion_new m T bs be sz)"
    by (auto simp: Diffusion_new_def linspace_on_def)
next
  assume "0 \<le> T \<and> T < 2 ^ 63 \<and> creates m (nat T) = Raises e"
  then show "Diffusion_new m T bs be sz = Inl e"
    by (simp add: Diffusion_new_def linspace_on_def)
next
  assume a: "0 \<le> T \<and> T < 2 ^ 63 \<and> creates m (nat T) = Created"
  then obtain d where d: "Diffusion_new m T bs be sz = Inr d"
    using Diffusion_new_total [of T m bs be sz] by auto
  from Diffusion_new_Inr [OF d] Diffusion_new_lengths [OF d] d
  show "\<exists>d. Diffusion_new m T bs be sz = Inr d \<and> length (beta d) = nat T \<and>
           length (alpha d) = nat T \<and> length (alpha_hat d) = nat T \<and>
           noise_steps d = T \<and> beta_start d = bs \<and> beta_end d = be"
    by blast
qed

theorem init_failure_cases_witness:
  "(- 1 :: int) < 0 \<and> - (2 ^ 63) \<le> (- 1 :: int) \<and>
   Diffusion_new small_machine (- 1) (1/10) (1/5) 64 = Inl RuntimeError \<and>
   ((2 :: int) ^ 63 < - (2 ^ 63) \<or> (2 :: int) ^ 63 \<le> 2 ^ 63) \<and>
   isl (Diffusion_new small_machine (2 ^ 63) (1/10) (1/5) 64) \<and>
   (0 :: int) \<le> 2000 \<and> (2000 :: int) < 2 ^ 63 \<and>
   creates small_machine (nat 2000) = Raises RuntimeError \<and>
   Diffusion_new small_machine 2000 (1/10) (1/5) 64 = Inl RuntimeError \<and>
   (0 :: int) \<le> 2 \<and> (2 :: int) < 2 ^ 63 \<and> creates small_machine (nat 2) = Created \<and>
   Diffusion_new small_machine 2 (1/2) (1/4) 64 =
     Inr \<lparr>noise_steps = 2, beta_start = 1/2, beta_end = 1/4, img_size = 64,
          beta = [1/2, 1/4], alpha = [1/2, 3/4], alpha_hat = [1/2, 1/2]\<rparr>"
proof -
  note A = init_failure_cases [of "- 1" small_machine "1/10" "1/5" 64 RuntimeError]
  note B = init_failure_cases [of "2 ^ 63" small_machine "1/10" "1/5" 64 RuntimeError]
  note C = init_failure_cases [of 2000 small_machine "1/10" "1/5" 64 RuntimeError]
  note D = init_failure_cases [of 2 small_machine "1/2" "1/4" 64 RuntimeError]
  have c1: "creates small_machine (nat 2000) = Raises RuntimeError"
    by (simp add: small_machine_def)
  have c2: "creates small_machine (nat 2) = Created" by (simp add: small_machine_def)
  have a: "Diffusion_new small_machine (- 1) (1/10) (1/5) 64 = Inl RuntimeError"
    using A by simp
  have b: "isl (Diffusion_new small_machine (2 ^ 63) (1/10) (1/5) 64)"
    using B by simp
  have c: "Diffusion_new small_machine 2000 (1/10) (1/5) 64 = Inl RuntimeError"
    using C c1 by simp
  from D c2 obtain d where d: "Diffusion_new small_machine 2 (1/2) (1/4) 64 = Inr d"
    and l: "length (beta d) = nat 2"
    by auto
  from d have "d = \<lparr>noise_steps = 2, beta_start = 1/2, beta_end = 1/4, img_size = 64,
          beta = [1/2, 1/4], alpha = [1/2, 3/4], alpha_hat = [1/2, 1/2]\<rparr>"
    by (simp add: small_machine_reversed_bounds)
  with d a b c c1 c2 show ?thesis by simp
qed

section \<open>Claims about the timestep sampler\<close>









text \<open>
  C10.  With \<open>noise_steps = 1\<close> the sampler raises for every \<open>n\<close>: the integer draw over
  the empty range \<open>[1, 1)\<close> is rejected and no timestep is returned.  The sampler returns
  timesteps exactly when \<open>noise_steps \<ge> 2\<close>.
\<close>

theorem sample_timestep_single_step_fails:
  "(noise_steps d = 1 \<longrightarrow> sample_timestep d n u pos = (Inl RuntimeError, pos)) \<and>
   ((\<exists>ts p. sample_timestep d n u pos = (Inr ts, p)) \<longleftrightarrow> 2 \<le> noise_steps d)"
  by (auto simp: sample_timestep_def randint_def)

theorem sample_timestep_single_step_fails_witness:
  "noise_steps
     \<lparr>noise_steps = 1, beta_start = 1/10, beta_end = 1/5, img_size = 64, beta = [1/10],
      alpha = [9/10], alpha_hat = [9/10]\<rparr> = 1 \<and>
   sample_timestep
     \<lparr>noise_steps = 1, beta_start = 1/10, beta_end = 1/5, img_size = 64, beta = [1/10],
      alpha = [9/10], alpha_hat = [9/10]\<rparr> 4 (\<lambda>k. k) 0 = (Inl RuntimeError, 0)"
  using sample_timestep_single_step_fails
    [of "\<lparr>noise_steps = 1, beta_start = 1/10, beta_end = 1/5, img_size = 64, beta = [1/10],
         alpha = [9/10], alpha_hat = [9/10]\<rparr>" 4 "\<lambda>k. k" 0]
  by simp

section \<open>Facts about the tensor operations and the forward process\<close>

lemma randn_like_Cons:
  "randn_like g pos (s # ss) =
     (randn g pos (length s) # fst (randn_like g (pos + length s) ss),
      snd (randn_like g (pos + length s) ss))"
  by (simp add: case_prod_beta)

lemma randn_like_shape: "map length (fst (randn_like g pos x)) = map length x"
proof (induction x arbitrary: pos)
  case Nil
  show ?case by simp
next
  case (Cons s ss)
  show ?case using Cons [of "pos + length s"]
    by (simp only: randn_like_Cons fst_conv list.map randn_def length_map length_upt) simp
qed

lemma randn_like_pos: "snd (randn_like g pos x) = pos + length (concat x)"
proof (induction x arbitrary: pos)
  case Nil
  show ?case by simp
next
  case (Cons s ss)
  show ?case using Cons [of "pos + length s"]
    by (simp only: randn_like_Cons snd_conv concat.simps length_append add.assoc)
qed

lemma randn_like_concat:
  "concat (fst (randn_like g pos x)) = map g [pos..<pos + length (concat x)]"
proof (induction x arbitrary: pos)
  case Nil
  show ?case by simp
next
  case (Cons s ss)
  have "[pos..<pos + (length s + length (concat ss))] =
          [pos..<pos + length s] @ [pos + length s..<pos + length s + length (concat ss)]"
    using upt_add_eq_append [of pos "pos + length s" "length (concat ss)"]
    by (simp only: add.assoc le_add1)
  with Cons [of "pos + length s"] show ?case
    by (simp only: randn_like_Cons fst_conv concat.simps length_append randn_def map_append)
qed

lemma randn_like_eq:
  "randn_like g pos x = (fst (randn_like g pos x), pos + length (concat x))"
  using randn_like_pos [of g pos x] by (simp add: prod_eq_iff)

lemma length_same_shape: "map length x = map length y \<Longrightarrow> length x = length y"
  using length_map by metis

lemma nth_same_shape:
  "map length x = map length y \<Longrightarrow> j < length x \<Longrightarrow> length (x ! j) = length (y ! j)"
  by (metis length_map nth_map)

lemma scale_batch_eq:
  "length c = length x \<Longrightarrow> scale_batch c x = Inr (map2 (\<lambda>a s. map ((*) a) s) c x)"
  by (simp add: scale_batch_def)

lemma scale_shape:
  "length c = length x \<Longrightarrow> map length (map2 (\<lambda>a s. map ((*) a) s) c x) = map length x"
  by (induction c x rule: list_induct2) simp_all

lemma scale_nth:
  "length c = length x \<Longrightarrow> j < length x \<Longrightarrow> k < length (x ! j) \<Longrightarrow>
     map2 (\<lambda>a s. map ((*) a) s) c x ! j ! k = c ! j * x ! j ! k"
  by simp

lemma pointwise_eq:
  "map length x = map length y \<Longrightarrow> pointwise f x y = Inr (map2 (map2 f) x y)"
  by (simp add: pointwise_def)

lemma pointwise_shape:
  assumes "map length x = map length y"
  shows "map length (map2 (map2 f) x y) = map length x"
proof (rule nth_equalityI)
  show "length (map length (map2 (map2 f) x y)) = length (map length x)"
    using length_same_shape [OF assms] by simp
next
  fix j assume "j < length (map length (map2 (map2 f) x y))"
  then have j: "j < length x" "j < length y" using length_same_shape [OF assms] by simp_all
  with nth_same_shape [OF assms j(1)]
  show "map length (map2 (map2 f) x y) ! j = map length x ! j" by simp
qed

lemma pointwise_nth:
  assumes "map length x = map length y" "j < length x" "k < length (x ! j)"
  shows "map2 (map2 f) x y ! j ! k = f (x ! j ! k) (y ! j ! k)"
proof -
  have "j < length y" using length_same_shape [OF assms(1)] assms(2) by simp
  moreover have "k < length (y ! j)" using nth_same_shape [OF assms(1,2)] assms(3) by simp
  ultimately show ?thesis using assms(2,3) by simp
qed

lemma index_tensor_Inr:
  "list_all (\<lambda>i. - int (length xs) \<le> i \<and> i < int (length xs)) t \<Longrightarrow>
     index_tensor xs t =
       Inr (map (\<lambda>i. xs ! nat (if i < 0 then i + int (length xs) else i)) t)"
  by (simp add: index_tensor_def)

lemma index_tensor_Inl:
  "\<not> list_all (\<lambda>i. - int (length xs) \<le> i \<and> i < int (length xs)) t \<Longrightarrow>
     index_tensor xs t = Inl IndexError"
  by (simp add: index_tensor_def)

text \<open>The forward process on timesteps that the indexing accepts.\<close>

lemma noise_images_accepted:
  assumes t: "list_all (\<lambda>i. - int (length (alpha_hat d)) \<le> i \<and> i < int (length (alpha_hat d))) t"
    and len: "length t = length x_0"
  shows "\<exists>x_t epsilon.
           noise_images d x_0 t g pos = (Inr (x_t, epsilon), pos + length (concat x_0)) \<and>
           epsilon = fst (randn_like g pos x_0) \<and>
           map length x_t = map length x_0 \<and>
           (\<forall>j < length x_0. \<forall>k < length (x_0 ! j).
              x_t ! j ! k =
                sqrt (alpha_hat d ! nat (if t ! j < 0 then t ! j + int (length (alpha_hat d)) else t ! j))
                  * x_0 ! j ! k
                + sqrt (1 - alpha_hat d ! nat (if t ! j < 0 then t ! j + int (length (alpha_hat d)) else t ! j))
                  * epsilon ! j ! k)"
proof -
  define ix where "ix = (\<lambda>i. nat (if i < 0 then i + int (length (alpha_hat d)) else i))"
  define ah where "ah = map (\<lambda>i. alpha_hat d ! ix i) t"
  define eps where "eps = fst (randn_like g pos x_0)"
  define c1 where "c1 = map sqrt ah"
  define c2 where "c2 = map (\<lambda>a. sqrt (1 - a)) ah"
  define u where "u = map2 (\<lambda>a s. map ((*) a) s) c1 x_0"
  define w where "w = map2 (\<lambda>a s. map ((*) a) s) c2 eps"
  define x_t where "x_t = map2 (map2 (+)) u w"
  have ix: "index_tensor (alpha_hat d) t = Inr ah"
    using index_tensor_Inr [OF t] by (simp add: ah_def ix_def)
  have rl: "randn_like g pos x_0 = (eps, pos + length (concat x_0))"
    using randn_like_eq [of g pos x_0] by (simp add: eps_def)
  have se: "map length eps = map length x_0" by (simp add: eps_def randn_like_shape)
  have le: "length eps = length x_0" using length_same_shape [OF se] .
  have l1: "length c1 = length x_0" and l2: "length c2 = length eps"
    using len le by (simp_all add: c1_def c2_def ah_def)
  have s1: "scale_batch c1 x_0 = Inr u" using scale_batch_eq [OF l1] by (simp add: u_def)
  have s2: "scale_batch c2 eps = Inr w" using scale_batch_eq [OF l2] by (simp add: w_def)
  have su: "map length u = map length x_0" using scale_shape [OF l1] by (simp add: u_def)
  have sw: "map length w = map length x_0" using scale_shape [OF l2] se by (simp add: w_def)
  have suw: "map length u = map length w" using su sw by simp
  have s3: "pointwise (+) u w = Inr x_t" using pointwise_eq [OF suw] by (simp add: x_t_def)
  have res: "noise_images d x_0 t g pos = (Inr (x_t, eps), pos + length (concat x_0))"
    by (simp add: noise_images_def ix rl c1_def [symmetric] c2_def [symmetric] s1 s2 s3)
  have sx: "map length x_t = map length x_0"
    using pointwise_shape [OF suw, of "(+)"] su by (simp add: x_t_def)
  have el: "x_t ! j ! k = sqrt (alpha_hat d ! ix (t ! j)) * x_0 ! j ! k
                + sqrt (1 - alpha_hat d ! ix (t ! j)) * eps ! j ! k"
    if j: "j < length x_0" and k: "k < length (x_0 ! j)" for j k
  proof -
    have ju: "j < length u" using length_same_shape [OF su] j by simp
    have ku: "k < length (u ! j)" using nth_same_shape [OF su ju] k by simp
    have je: "j < length eps" using le j by simp
    have ke: "k < length (eps ! j)" using nth_same_shape [OF se je] k by simp
    have "x_t ! j ! k = u ! j ! k + w ! j ! k"
      unfolding x_t_def by (rule pointwise_nth [OF suw ju ku])
    moreover have "u ! j ! k = c1 ! j * x_0 ! j ! k"
      unfolding u_def by (rule scale_nth [OF l1 j k])
    moreover have "w ! j ! k = c2 ! j * eps ! j ! k"
      unfolding w_def by (rule scale_nth [OF l2 je ke])
    moreover have "c1 ! j = sqrt (alpha_hat d ! ix (t ! j))"
      using j len by (simp add: c1_def ah_def)
    moreover have "c2 ! j = sqrt (1 - alpha_hat d ! ix (t ! j))"
      using j len by (simp add: c2_def ah_def)
    ultimately show ?thesis by simp
  qed
  from res sx el show ?thesis unfolding eps_def ix_def by blast
qed

lemma noise_images_rejected:
  assumes "\<not> list_all (\<lambda>i. - int (length (alpha_hat d)) \<le> i \<and> i < int (length (alpha_hat d))) t"
  shows "noise_images d x_0 t g pos = (Inl IndexError, pos)"
  by (simp add: noise_images_def index_tensor_Inl [OF assms])

lemma two_step_init: "Diffusion_init 2 (69/169) (3/4) 1 = Inr two_step"
  by (simp add: Diffusion_init_def prepare_noise_schedule_def linspace_def cumprod_def
      two_step_def numeral_2_eq_2)

lemma sqrt_values:
  "sqrt (25/169) = 5/13" "sqrt (144/169) = 12/13" "sqrt (100/169) = 10/13"
  "sqrt (1/4) = 1/2"
  by (rule real_sqrt_unique, simp add: power2_eq_square, simp)+

section \<open>Claims about the forward process\<close>

text \<open>
  C3.  For a schedule built from \<open>0 < beta_start < beta_end < 1\<close>, a clean batch \<open>x0\<close> and
  a timestep vector \<open>t\<close> of the same length with every \<open>t_i\<close> in \<open>[0, T)\<close>, the forward
  noising operation returns the pair \<open>(x_t, epsilon)\<close>: \<open>epsilon\<close> has the shape of \<open>x0\<close>
  and its entries are, in order, the next unread draws of the generator, one draw for each
  entry; \<open>x_t\<close> has the shape of \<open>x0\<close>; and every entry of sample \<open>i\<close> is
  \<open>sqrt(alpha_hat[t_i]) * x0_i + sqrt(1 - alpha_hat[t_i]) * epsilon_i\<close> with the returned
  \<open>epsilon\<close>, the two coefficients being the same for all entries of the sample and
  \<open>alpha_hat[t_i]\<close> lying strictly between 0 and 1.
\<close>

theorem noise_images_forward:
  assumes d: "Diffusion_init T bs be sz = Inr d" and v: "0 < bs" "bs < be" "be < 1"
    and len: "length t = length x_0"
    and t: "list_all (\<lambda>i. 0 \<le> i \<and> i < T) t"
  shows "\<exists>x_t epsilon.
           noise_images d x_0 t g pos = (Inr (x_t, epsilon), pos + length (concat x_0)) \<and>
           map length epsilon = map length x_0 \<and>
           map length x_t = map length x_0 \<and>
           concat epsilon = map g [pos..<pos + length (concat x_0)] \<and>
           (\<forall>j < length x_0.
              0 < alpha_hat d ! nat (t ! j) \<and> alpha_hat d ! nat (t ! j) < 1 \<and>
              (\<forall>k < length (x_0 ! j).
                 x_t ! j ! k = sqrt (alpha_hat d ! nat (t ! j)) * x_0 ! j ! k
                              + sqrt (1 - alpha_hat d ! nat (t ! j)) * epsilon ! j ! k))"
proof -
  have L: "length (alpha_hat d) = nat T" by (rule Diffusion_init_lengths(3) [OF d])
  have tj: "0 \<le> t ! j \<and> t ! j < T" if "j < length x_0" for j
    using t len that by (simp add: list_all_length)
  have acc: "list_all (\<lambda>i. - int (length (alpha_hat d)) \<le> i \<and> i < int (length (alpha_hat d))) t"
    using t L by (auto simp: list_all_iff)
  from noise_images_accepted [OF acc len, of g pos]
  obtain x_t epsilon where
    r: "noise_images d x_0 t g pos = (Inr (x_t, epsilon), pos + length (concat x_0))"
    and e: "epsilon = fst (randn_like g pos x_0)"
    and s: "map length x_t = map length x_0"
    and f: "\<forall>j < length x_0. \<forall>k < length (x_0 ! j).
              x_t ! j ! k =
                sqrt (alpha_hat d ! nat (if t ! j < 0 then t ! j + int (length (alpha_hat d)) else t ! j))
                  * x_0 ! j ! k
                + sqrt (1 - alpha_hat d ! nat (if t ! j < 0 then t ! j + int (length (alpha_hat d)) else t ! j))
                  * epsilon ! j ! k"
    by blast
  have se: "map length epsilon = map length x_0" by (simp add: e randn_like_shape)
  have ce: "concat epsilon = map g [pos..<pos + length (concat x_0)]"
    by (simp add: e randn_like_concat)
  have g: "0 < alpha_hat d ! nat (t ! j) \<and> alpha_hat d ! nat (t ! j) < 1 \<and>
              (\<forall>k < length (x_0 ! j).
                 x_t ! j ! k = sqrt (alpha_hat d ! nat (t ! j)) * x_0 ! j ! k
                              + sqrt (1 - alpha_hat d ! nat (t ! j)) * epsilon ! j ! k)"
    if j: "j < length x_0" for j
  proof -
    have n: "nat (t ! j) < nat T" using tj [OF j] by simp
    have "bs \<le> be" using v by simp
    from alpha_hat_unit_interval [OF d v(1) this v(3) n] f j tj [OF j]
    show ?thesis by simp
  qed
  from r se s ce g show ?thesis by blast
qed

theorem noise_images_forward_witness:
  "Diffusion_init 2 (69/169) (3/4) 1 = Inr two_step \<and> (0::real) < 69/169 \<and>
   (69/169 :: real) < 3/4 \<and> (3/4 :: real) < 1 \<and>
   length [1 :: int] = length [[13 :: real]] \<and> list_all (\<lambda>i. 0 \<le> i \<and> i < 2) [1 :: int] \<and>
   noise_images two_step [[13]] [1] (const_rng 13) 0 = (Inr ([[17]], [[13]]), 1)"
proof -
  have h: "(0::real) < 69/169" "(69/169 :: real) < 3/4" "(3/4 :: real) < 1"
    "length [1 :: int] = length [[13 :: real]]" "list_all (\<lambda>i. 0 \<le> i \<and> i < 2) [1 :: int]"
    by simp_all
  from noise_images_forward [OF two_step_init h, of "const_rng 13" 0]
  obtain x_t epsilon where
    r: "noise_images two_step [[13]] [1] (const_rng 13) 0 =
          (Inr (x_t, epsilon), 0 + length (concat [[13 :: real]]))"
    and se: "map length epsilon = map length [[13 :: real]]"
    and sx: "map length x_t = map length [[13 :: real]]"
    and ce: "concat epsilon = map (const_rng 13) [0..<0 + length (concat [[13 :: real]])]"
    and f: "\<forall>j < length [[13 :: real]].
              0 < alpha_hat two_step ! nat ([1] ! j) \<and> alpha_hat two_step ! nat ([1] ! j) < 1 \<and>
              (\<forall>k < length ([[13 :: real]] ! j).
                 x_t ! j ! k = sqrt (alpha_hat two_step ! nat ([1] ! j)) * [[13]] ! j ! k
                              + sqrt (1 - alpha_hat two_step ! nat ([1] ! j)) * epsilon ! j ! k)"
    by blast
  from se obtain e0 where e: "epsilon = [[e0]]"
    by (auto simp: map_eq_Cons_conv length_Suc_conv)
  from sx obtain y0 where x: "x_t = [[y0]]"
    by (auto simp: map_eq_Cons_conv length_Suc_conv)
  have e0: "e0 = 13" using ce by (simp add: e const_rng_def)
  have "y0 = sqrt (25/169) * 13 + sqrt (1 - 25/169) * 13"
    using f [rule_format, of 0] by (simp add: e x e0 two_step_def)
  then have "y0 = 17" by (simp add: sqrt_values)
  with r e x e0 h two_step_init show ?thesis by simp
qed

text \<open>
  C6, as stated.  The timestep \<open>-1\<close> is outside \<open>[0, T)\<close>, yet the forward noising
  operation does not fail on it: the index counts from the end, and a noised sample
  computed from \<open>alpha_hat[T-1]\<close> is returned.
\<close>

theorem noise_images_negative_index_counterexample:
  "Diffusion_init 2 (69/169) (3/4) 1 = Inr two_step \<and>
   noise_images two_step [[13]] [- 1] (const_rng 13) 0 = (Inr ([[17]], [[13]]), 1)"
proof (rule conjI)
  show "Diffusion_init 2 (69/169) (3/4) 1 = Inr two_step" by (rule two_step_init)
  show "noise_images two_step [[13]] [- 1] (const_rng 13) 0 = (Inr ([[17]], [[13]]), 1)"
    by (simp add: noise_images_def index_tensor_def scale_batch_def
        pointwise_def randn_def const_rng_def two_step_def sqrt_values)
qed

text \<open>
  C6, amended.  For every timestep vector \<open>t\<close> containing some \<open>t_i \<ge> T\<close> or
  \<open>t_i < -T\<close> the forward noising operation fails with the \<open>IndexError\<close> of the indexing
  and returns no sample.  A vector with every \<open>t_i\<close> in \<open>[-T, T)\<close>, as long as \<open>x0\<close>, is
  accepted: a negative \<open>t_i\<close> is read as \<open>T + t_i\<close>.
\<close>

theorem noise_images_index_error:
  assumes d: "Diffusion_init T bs be sz = Inr d"
  shows "(\<not> list_all (\<lambda>i. - T \<le> i \<and> i < T) t \<longrightarrow>
            noise_images d x_0 t g pos = (Inl IndexError, pos)) \<and>
         (list_all (\<lambda>i. - T \<le> i \<and> i < T) t \<and> length t = length x_0 \<longrightarrow>
            (\<exists>x_t epsilon.
               noise_images d x_0 t g pos = (Inr (x_t, epsilon), pos + length (concat x_0)) \<and>
               (\<forall>j < length x_0. \<forall>k < length (x_0 ! j).
                  x_t ! j ! k =
                    sqrt (alpha_hat d ! nat (if t ! j < 0 then t ! j + T else t ! j)) * x_0 ! j ! k
                    + sqrt (1 - alpha_hat d ! nat (if t ! j < 0 then t ! j + T else t ! j))
                      * epsilon ! j ! k)))"
proof -
  have T: "0 \<le> T"
    using d by (auto simp: Diffusion_init_def prepare_noise_schedule_def linspace_def
        split: if_splits)
  have L: "int (length (alpha_hat d)) = T"
    using Diffusion_init_lengths(3) [OF d] T by simp
  show ?thesis
  proof (intro conjI impI)
    assume "\<not> list_all (\<lambda>i. - T \<le> i \<and> i < T) t"
    then have "\<not> list_all (\<lambda>i. - int (length (alpha_hat d)) \<le> i \<and> i < int (length (alpha_hat d))) t"
      unfolding L .
    from noise_images_rejected [OF this]
    show "noise_images d x_0 t g pos = (Inl IndexError, pos)" .
  next
    assume a: "list_all (\<lambda>i. - T \<le> i \<and> i < T) t \<and> length t = length x_0"
    then have acc: "list_all (\<lambda>i. - int (length (alpha_hat d)) \<le> i \<and> i < int (length (alpha_hat d))) t"
      unfolding L by simp
    from noise_images_accepted [OF acc, of x_0 g pos] a
    show "\<exists>x_t epsilon.
               noise_images d x_0 t g pos = (Inr (x_t, epsilon), pos + length (concat x_0)) \<and>
               (\<forall>j < length x_0. \<forall>k < length (x_0 ! j).
                  x_t ! j ! k =
                    sqrt (alpha_hat d ! nat (if t ! j < 0 then t ! j + T else t ! j)) * x_0 ! j ! k
                    + sqrt (1 - alpha_hat d ! nat (if t ! j < 0 then t ! j + T else t ! j))
                      * epsilon ! j ! k)"
      unfolding L by blast
  qed
qed

theorem noise_images_index_error_witness:
  "Diffusion_init 2 (69/169) (3/4) 1 = Inr two_step \<and>
   \<not> list_all (\<lambda>i. - 2 \<le> i \<and> i < 2) [2 :: int] \<and>
   noise_images two_step [[13]] [2] (const_rng 13) 0 = (Inl IndexError, 0) \<and>
   \<not> list_all (\<lambda>i. - 2 \<le> i \<and> i < 2) [- 3 :: int] \<and>
   noise_images two_step [[13]] [- 3] (const_rng 13) 0 = (Inl IndexError, 0) \<and>
   list_all (\<lambda>i. - 2 \<le> i \<and> i < 2) [- 1 :: int] \<and> length [- 1 :: int] = length [[13 :: real]] \<and>
   fst (noise_images two_step [[13]] [- 1] (const_rng 13) 0) = Inr ([[17]], [[13]])"
proof -
  note A = noise_images_index_error [OF two_step_init, of "[2]" "[[13]]" "const_rng 13" 0]
  note B = noise_images_index_error [OF two_step_init, of "[- 3]" "[[13]]" "const_rng 13" 0]
  note C = noise_images_index_error [OF two_step_init, of "[- 1]" "[[13]]" "const_rng 13" 0]
  have a: "noise_images two_step [[13]] [2] (const_rng 13) 0 = (Inl IndexError, 0)"
    using A by simp
  have b: "noise_images two_step [[13]] [- 3] (const_rng 13) 0 = (Inl IndexError, 0)"
    using B by simp
  from C obtain x_t epsilon where
    r: "noise_images two_step [[13]] [- 1] (const_rng 13) 0 =
          (Inr (x_t, epsilon), 0 + length (concat [[13 :: real]]))"
    by auto
  have c: "fst (noise_images two_step [[13]] [- 1] (const_rng 13) 0) = Inr ([[17]], [[13]])"
    by (simp add: noise_images_def index_tensor_def scale_batch_def
      pointwise_def randn_def const_rng_def two_step_def sqrt_values)
  from a b c two_step_init show ?thesis by simp
qed

section \<open>Facts about the reverse process\<close>

lemma zeros_like_shape: "map length (zeros_like x) = map length x"
  by (simp add: zeros_like_def)

lemma zeros_like_nth:
  "j < length x \<Longrightarrow> k < length (x ! j) \<Longrightarrow> zeros_like x ! j ! k = 0"
  by (simp add: zeros_like_def)

lemma index_tensor_replicate:
  assumes "0 \<le> i" "i < int (length xs)"
  shows "index_tensor xs (replicate n i) = Inr (replicate n (xs ! nat i))"
proof -
  have "list_all (\<lambda>i. - int (length xs) \<le> i \<and> i < int (length xs)) (replicate n i)"
    using assms by (simp add: list_all_iff)
  from index_tensor_Inr [OF this] assms show ?thesis by (simp add: map_replicate_const)
qed

text \<open>The update of line 84 on coefficient tensors that repeat one scalar, for a
  prediction and a noise of the shape of \<open>x\<close>.\<close>

lemma sample_update_scalar:
  assumes sp: "map length p = map length x" and sz: "map length z = map length x"
  shows "sample_update (replicate (length x) a) (replicate (length x) ah)
           (replicate (length x) b) x p z = Inr (spec_update a ah b x p z)"
proof -
  let ?n = "length x"
  define c2 where "c2 = (1 - a) / sqrt (1 - ah)"
  define w where "w = map2 (\<lambda>a s. map ((*) a) s) (replicate ?n c2) p"
  define y where "y = map2 (map2 (-)) x w"
  define u where "u = map2 (\<lambda>a s. map ((*) a) s) (replicate ?n (1 / sqrt a)) y"
  define v where "v = map2 (\<lambda>a s. map ((*) a) s) (replicate ?n (sqrt b)) z"
  define r where "r = map2 (map2 (+)) u v"
  have lp: "length p = ?n" and lz: "length z = ?n"
    using length_same_shape [OF sp] length_same_shape [OF sz] by simp_all
  have k2: "map2 (\<lambda>p q. (1 - p) / sqrt (1 - q)) (replicate ?n a) (replicate ?n ah)
              = replicate ?n c2"
    by (simp add: c2_def zip_replicate map_replicate_const)
  have e1: "scale_batch (replicate ?n c2) p = Inr w"
    using scale_batch_eq [of "replicate ?n c2" p] lp by (simp add: w_def)
  have sw: "map length w = map length x"
    using scale_shape [of "replicate ?n c2" p] lp sp by (simp add: w_def)
  have e2: "pointwise (-) x w = Inr y"
    using pointwise_eq [of x w "(-)"] sw by (simp add: y_def)
  have sy: "map length y = map length x"
    using pointwise_shape [of x w "(-)"] sw by (simp add: y_def)
  have ly: "length y = ?n" using length_same_shape [OF sy] .
  have e3: "scale_batch (replicate ?n (1 / sqrt a)) y = Inr u"
    using scale_batch_eq [of "replicate ?n (1 / sqrt a)" y] ly by (simp add: u_def)
  have su: "map length u = map length x"
    using scale_shape [of "replicate ?n (1 / sqrt a)" y] ly sy by (simp add: u_def)
  have e4: "scale_batch (replicate ?n (sqrt b)) z = Inr v"
    using scale_batch_eq [of "replicate ?n (sqrt b)" z] lz by (simp add: v_def)
  have sv: "map length v = map length x"
    using scale_shape [of "replicate ?n (sqrt b)" z] lz sz by (simp add: v_def)
  have suv: "map length u = map length v" using su sv by simp
  have e5: "pointwise (+) u v = Inr r"
    using pointwise_eq [OF suv, of "(+)"] by (simp add: r_def)
  have sr: "map length r = map length x"
    using pointwise_shape [OF suv, of "(+)"] su by (simp add: r_def)
  have res: "sample_update (replicate ?n a) (replicate ?n ah) (replicate ?n b) x p z = Inr r"
    by (simp only: sample_update_def k2 map_replicate e1 e2 e3 e4 e5 sum.case)
  have el: "r ! j ! k = (1 / sqrt a) * (x ! j ! k - c2 * p ! j ! k) + sqrt b * z ! j ! k"
    if j: "j < ?n" and k: "k < length (x ! j)" for j k
  proof -
    have jp: "j < length p" and jz: "j < length z" and jy: "j < length y"
      using j lp lz ly by simp_all
    have ju: "j < length u" using length_same_shape [OF su] j by simp
    have kp: "k < length (p ! j)" using nth_same_shape [OF sp jp] k by simp
    have kz: "k < length (z ! j)" using nth_same_shape [OF sz jz] k by simp
    have ky: "k < length (y ! j)" using nth_same_shape [OF sy jy] k by simp
    have ku: "k < length (u ! j)" using nth_same_shape [OF su ju] k by simp
    have "r ! j ! k = u ! j ! k + v ! j ! k"
      unfolding r_def by (rule pointwise_nth [OF suv ju ku])
    moreover have "u ! j ! k = replicate ?n (1 / sqrt a) ! j * y ! j ! k"
      unfolding u_def by (rule scale_nth [OF _ jy ky]) (simp add: ly)
    moreover have "v ! j ! k = replicate ?n (sqrt b) ! j * z ! j ! k"
      unfolding v_def by (rule scale_nth [OF _ jz kz]) (simp add: lz)
    moreover have "y ! j ! k = x ! j ! k - w ! j ! k"
      unfolding y_def by (rule pointwise_nth [OF sw [symmetric] j k])
    moreover have "w ! j ! k = replicate ?n c2 ! j * p ! j ! k"
      unfolding w_def by (rule scale_nth [OF _ jp kp]) (simp add: lp)
    ultimately show ?thesis using j by simp
  qed
  have "r = spec_update a ah b x p z"
  proof (rule nth_equalityI)
    show "length r = length (spec_update a ah b x p z)"
      using length_same_shape [OF sr] by (simp add: spec_update_def)
  next
    fix j assume "j < length r"
    then have j: "j < ?n" using length_same_shape [OF sr] by simp
    show "r ! j = spec_update a ah b x p z ! j"
    proof (rule nth_equalityI)
      show "length (r ! j) = length (spec_update a ah b x p z ! j)"
        using nth_same_shape [OF sr] j length_same_shape [OF sr] by (simp add: spec_update_def)
    next
      fix k assume "k < length (r ! j)"
      then have k: "k < length (x ! j)"
        using nth_same_shape [OF sr, of j] j length_same_shape [OF sr] by simp
      show "r ! j ! k = spec_update a ah b x p z ! j ! k"
        using el [OF j k] j k by (simp add: spec_update_def c2_def)
    qed
  qed
  with res show ?thesis by simp
qed

lemma spec_update_shape: "map length (spec_update a ah b x p z) = map length x"
  by (rule nth_equalityI) (simp_all add: spec_update_def)

lemma float32_ulp_small: "m < 2 ^ 24 \<Longrightarrow> float32_ulp m = 1"
  by (subst float32_ulp.simps) simp

lemma float32_ulp_at_limit: "float32_ulp (2 ^ 24) = 2"
  by (subst float32_ulp.simps) (simp add: float32_ulp_small)

lemma float32_of_nat_exact:
  assumes "m \<le> 2 ^ 24"
  shows "float32_of_nat m = m"
proof (cases "m < 2 ^ 24")
  case True
  then show ?thesis by (simp add: float32_of_nat_def float32_ulp_small)
next
  case False
  with assms have "m = 2 ^ 24" by simp
  then show ?thesis by (simp add: float32_of_nat_def float32_ulp_at_limit)
qed

lemma float32_long_exact:
  assumes "0 \<le> i" "i \<le> 2 ^ 24"
  shows "float32_long i = i"
proof -
  have "nat i \<le> 2 ^ 24" using assms by (simp add: nat_le_iff)
  from float32_of_nat_exact [OF this] assms(1) show ?thesis by (simp add: float32_long_def)
qed

lemma float32_long_one: "float32_long 1 = 1"
  by (rule float32_long_exact) simp_all


lemma noise_draw_shape: "map length (fst (noise_draw n g pos x)) = map length x"
  by (simp add: noise_draw_def randn_like_shape zeros_like_shape)

lemma sample_iter_failure:
  "model Inference x (replicate n i) = Inl e \<Longrightarrow>
     sample_iter d model n g i (x, pos) = (Inl e, pos)"
  by (simp add: sample_iter_def)

lemma sample_iter_success:
  assumes m: "model Inference x (replicate n i) = Inr p"
    and sp: "map length p = map length x"
    and n: "length x = n"
    and i: "0 \<le> i" "i < int (length (alpha d))" "i < int (length (alpha_hat d))"
      "i < int (length (beta d))"
  shows "sample_iter d model n g i (x, pos) =
           (Inr (spec_update (alpha d ! nat i) (alpha_hat d ! nat i) (beta d ! nat i) x p
                   (fst (noise_draw n g pos x))),
            snd (noise_draw n g pos x))"
proof -
  have a: "index_tensor (alpha d) (replicate n i) = Inr (replicate (length x) (alpha d ! nat i))"
    using index_tensor_replicate [OF i(1,2)] n by simp
  have ah: "index_tensor (alpha_hat d) (replicate n i) =
              Inr (replicate (length x) (alpha_hat d ! nat i))"
    using index_tensor_replicate [OF i(1,3)] n by simp
  have b: "index_tensor (beta d) (replicate n i) = Inr (replicate (length x) (beta d ! nat i))"
    using index_tensor_replicate [OF i(1,4)] n by simp
  have u: "sample_update (replicate (length x) (alpha d ! nat i))
             (replicate (length x) (alpha_hat d ! nat i)) (replicate (length x) (beta d ! nat i))
             x p (fst (noise_draw n g pos x)) =
           Inr (spec_update (alpha d ! nat i) (alpha_hat d ! nat i) (beta d ! nat i) x p
                  (fst (noise_draw n g pos x)))"
    by (rule sample_update_scalar [OF sp noise_draw_shape])
  show ?thesis
    by (simp only: sample_iter_def prod.case m a ah b sum.case case_prod_beta u fst_conv snd_conv)
qed





lemma shape_preserving_zero_model: "shape_preserving zero_model"
  by (simp add: shape_preserving_def zero_model_def zeros_like_shape)


section \<open>Claims about the reverse process\<close>










lemma index_tensor_replicate_Inr:
  assumes "index_tensor xs (replicate n i) = Inr ys"
  shows "ys = replicate n (xs ! nat (if i < 0 then i + int (length xs) else i))"
  using assms by (auto simp: index_tensor_def map_replicate_const split: if_splits)

lemma sample_iter_shape:
  assumes c: "shape_preserving model" and n: "length x = n"
    and r: "sample_iter d model n g i (x, pos) = (Inr x', pos')"
  shows "map length x' = map length x"
proof -
  from r obtain p where m: "model Inference x (replicate n i) = Inr p"
    by (cases "model Inference x (replicate n i)") (simp_all add: sample_iter_def)
  have sp: "map length p = map length x" using c m by (auto simp: shape_preserving_def)
  from r m obtain a where a: "index_tensor (alpha d) (replicate n i) = Inr a"
    by (cases "index_tensor (alpha d) (replicate n i)") (simp_all add: sample_iter_def)
  from r m a obtain ah where ah: "index_tensor (alpha_hat d) (replicate n i) = Inr ah"
    by (cases "index_tensor (alpha_hat d) (replicate n i)") (simp_all add: sample_iter_def)
  from r m a ah obtain b where b: "index_tensor (beta d) (replicate n i) = Inr b"
    by (cases "index_tensor (beta d) (replicate n i)") (simp_all add: sample_iter_def)
  obtain a0 ah0 b0 where reps: "a = replicate (length x) a0" "ah = replicate (length x) ah0"
    "b = replicate (length x) b0"
    using index_tensor_replicate_Inr [OF a] index_tensor_replicate_Inr [OF ah]
      index_tensor_replicate_Inr [OF b] n by blast
  have "sample_update a ah b x p (fst (noise_draw n g pos x)) =
          Inr (spec_update a0 ah0 b0 x p (fst (noise_draw n g pos x)))"
    unfolding reps by (rule sample_update_scalar [OF sp noise_draw_shape])
  with r m a ah b have "x' = spec_update a0 ah0 b0 x p (fst (noise_draw n g pos x))"
    by (simp add: sample_iter_def case_prod_beta)
  then show ?thesis by (simp add: spec_update_shape)
qed

lemma sample_loop_shape:
  assumes c: "shape_preserving model"
  shows "length x = n \<Longrightarrow> sample_loop d model n g ts (x, pos) = (Inr x', pos') \<Longrightarrow>
           map length x' = map length x"
proof (induction ts arbitrary: x pos)
  case Nil
  then show ?case by simp
next
  case (Cons i ts)
  obtain r p where it: "sample_iter d model n g (float32_long i) (x, pos) = (r, p)"
    by fastforce
  show ?case
  proof (cases r)
    case (Inl e)
    with Cons.prems(2) it show ?thesis by simp
  next
    case (Inr y)
    have sy: "map length y = map length x"
      using sample_iter_shape [OF c Cons.prems(1)] it Inr by simp
    have ly: "length y = n" using length_same_shape [OF sy] Cons.prems(1) by simp
    have "sample_loop d model n g ts (y, p) = (Inr x', pos')"
      using Cons.prems(2) it Inr by simp
    from Cons.IH [OF ly this] sy show ?thesis by simp
  qed
qed

lemma randn_batch_shape:
  "map length (fst (randn_batch g pos n m)) = replicate n m"
  by (simp add: randn_batch_def randn_like_shape)

lemma truncate_unit:
  assumes "0 \<le> v" "v \<le> 255"
  shows "0 \<le> truncate v \<and> truncate v \<le> 255 \<and> truncate v = \<lfloor>v\<rfloor>"
proof -
  have "\<lfloor>v\<rfloor> \<le> 255" using assms(2) by (simp add: floor_le_iff)
  moreover have "0 \<le> \<lfloor>v\<rfloor>" using assms(1) by simp
  ultimately show ?thesis using assms(1) by (simp add: truncate_def)
qed

lemma pixel_range:
  "0 \<le> (clamp (- 1) 1 v + 1) / 2 * 255 \<and> (clamp (- 1) 1 v + 1) / 2 * 255 \<le> 255"
  by (simp add: clamp_def min_def max_def)

lemma to_uint8_pixel:
  "uint (to_uint8 ((clamp (- 1) 1 v + 1) / 2 * 255)) = \<lfloor>(clamp (- 1) 1 v + 1) / 2 * 255\<rfloor> \<and>
   uint (to_uint8 ((clamp (- 1) 1 v + 1) / 2 * 255)) \<le> 255"
proof -
  let ?w = "(clamp (- 1) 1 v + 1) / 2 * 255"
  from truncate_unit [of ?w] pixel_range [of v]
  have t: "0 \<le> truncate ?w" "truncate ?w \<le> 255" "truncate ?w = \<lfloor>?w\<rfloor>" by simp_all
  have "uint (word_of_int (truncate ?w) :: 8 word) = truncate ?w"
    using t(1,2) by (simp add: uint_word_of_int take_bit_int_eq_self)
  with t show ?thesis by (simp add: to_uint8_def)
qed

lemma sample_loop_append:
  "sample_loop d model n g (pre @ ts) xp =
     (case sample_loop d model n g pre xp of
        (Inl e, p) \<Rightarrow> (Inl e, p)
      | (Inr x, p) \<Rightarrow> sample_loop d model n g ts (x, p))"
proof (induction pre arbitrary: xp)
  case Nil
  show ?case by simp
next
  case (Cons i pre)
  show ?case
    by (cases "sample_iter d model n g (float32_long i) xp")
      (auto simp: Cons split: sum.splits prod.splits)
qed

lemma example_constants:
  "randn_batch (const_rng 0) 0 (Suc 0) 3 = ([[0, 0, 0]], 3)"
  "sample_timesteps two_step = [1]"
  by (simp_all add: randn_batch_def randn_def const_rng_def sample_timesteps_def two_step_def
      numeral_3_eq_3)

lemma example_runs:
  "sample two_step failing_model 1 (const_rng 0) Training 0 = (Inl ModelError, Inference, 3) \<and>
   sample two_step zero_model 1 (const_rng 0) Inference 0 =
     (Inr [[127, 127, 127]], Training, 3)"
proof (rule conjI)
  have i: "img_size two_step = 1" by (simp add: two_step_def)
  show "sample two_step failing_model 1 (const_rng 0) Training 0 =
          (Inl ModelError, Inference, 3)"
    by (simp add: sample_def i example_constants float32_long_one sample_iter_def
        failing_model_def)
  have it: "sample_iter two_step zero_model (Suc 0) (const_rng 0) 1 ([[0, 0, 0]], 3) =
              (Inr [[0, 0, 0]], 3)"
    by (simp add: sample_iter_def zero_model_def zeros_like_def index_tensor_def two_step_def
        noise_draw_def sample_update_def scale_batch_def pointwise_def)
  have pp: "postprocess [[0, 0, 0]] = [[127, 127, 127]]"
    by (simp add: postprocess_def to_uint8_def clamp_def truncate_def)
  show "sample two_step zero_model 1 (const_rng 0) Inference 0 =
          (Inr [[127, 127, 127]], Training, 3)"
    by (simp add: sample_def i example_constants float32_long_one it pp)
qed

lemma round_trip_algebra:
  assumes a: "0 < a" and q: "0 < q" and ah: "ah = q * a" and lt: "ah < 1"
  shows "1 / sqrt a * (sqrt ah * x + sqrt (1 - ah) * e - (1 - a) / sqrt (1 - ah) * e) + c =
           sqrt q * x + (a - ah) / (sqrt a * sqrt (1 - ah)) * e + c"
proof -
  define sa where "sa = sqrt a"
  define s1 where "s1 = sqrt (1 - ah)"
  define sq where "sq = sqrt q"
  have sa: "0 < sa" using a by (simp add: sa_def)
  have s1: "0 < s1" using lt by (simp add: s1_def)
  have s11: "s1 * s1 = 1 - ah" using lt by (simp add: s1_def)
  have saa: "sa * sa = a" using a by (simp add: sa_def)
  have sah: "sqrt ah = sq * sa" by (simp add: ah sq_def sa_def real_sqrt_mult)
  have "1 / sa * (sq * sa * x + s1 * e - (1 - a) / s1 * e) + c =
          sq * x + (s1 * s1 - (1 - a)) / (sa * s1) * e + c"
    using sa s1 by (simp add: field_simps)
  also have "s1 * s1 - (1 - a) = a - ah" by (simp add: s11)
  finally show ?thesis by (simp only: sah sa_def s1_def sq_def)
qed

lemma spec_update_nth:
  "j < length x \<Longrightarrow> k < length (x ! j) \<Longrightarrow>
     spec_update a ah b x p z ! j ! k =
       (1 / sqrt a) * (x ! j ! k - ((1 - a) / sqrt (1 - ah)) * p ! j ! k) + sqrt b * z ! j ! k"
  by (simp add: spec_update_def)

lemma round_trip_example:
  "noise_images two_step [[13]] [1] (const_rng (- 13)) 0 = (Inr ([[- 7]], [[- 13]]), 1)"
  "sample_iter two_step (echo_model [[- 13]]) 1 (const_rng (- 13)) 1 ([[- 7]], 1) =
     (Inr [[57/8]], 1)"
proof -
  show "noise_images two_step [[13]] [1] (const_rng (- 13)) 0 = (Inr ([[- 7]], [[- 13]]), 1)"
    by (simp add: noise_images_def index_tensor_def scale_batch_def
        pointwise_def randn_def const_rng_def two_step_def sqrt_values)
  show "sample_iter two_step (echo_model [[- 13]]) 1 (const_rng (- 13)) 1 ([[- 7]], 1) =
     (Inr [[57/8]], 1)"
    by (simp add: sample_iter_def echo_model_def zeros_like_def index_tensor_def two_step_def
        noise_draw_def sample_update_def scale_batch_def pointwise_def sqrt_values)
qed

text \<open>
  C4, as stated.  With a predictor in training mode that raises at its first call, the
  error reaches the caller while the predictor is in inference mode: \<open>model.train()\<close>
  follows the loop and is skipped.  With a predictor in inference mode and a loop that
  completes, the predictor is left in training mode, not in the mode it had.
\<close>

theorem sample_mode_counterexample:
  "sample two_step failing_model 1 (const_rng 0) Training 0 = (Inl ModelError, Inference, 3) \<and>
   sample two_step zero_model 1 (const_rng 0) Inference 0 =
     (Inr [[127, 127, 127]], Training, 3)"
  by (rule example_runs)

text \<open>
  C4, amended.  On normal completion of the loop the predictor is put into training mode
  before the result reaches the caller, whatever mode it had before the call.  A failure
  raised by the predictor inside the loop, at any timestep, ends the call at once and
  reaches the caller as it is, with no result and with the predictor left in inference
  mode, whatever mode it had before the call: the mode is not restored on this path.
\<close>

theorem sample_mode_on_exit:
  "(fst (sample d model n g md pos) = Inr out \<longrightarrow>
      fst (snd (sample d model n g md pos)) = Training) \<and>
   (fst (sample d model n g md pos) = Inl e \<longrightarrow>
      fst (snd (sample d model n g md pos)) = Inference) \<and>
   (sample_timesteps d = pre @ i # rest \<and>
    sample_loop d model n g pre (randn_batch g pos n (3 * img_size d * img_size d)) = (Inr x', p') \<and>
    model Inference x' (replicate n (float32_long i)) = Inl e \<longrightarrow>
      sample d model n g md pos = (Inl e, Inference, p'))"
proof (intro conjI impI)
  assume "fst (sample d model n g md pos) = Inr out"
  then show "fst (snd (sample d model n g md pos)) = Training"
    by (auto simp: sample_def split: prod.splits sum.splits)
next
  assume "fst (sample d model n g md pos) = Inl e"
  then show "fst (snd (sample d model n g md pos)) = Inference"
    by (auto simp: sample_def split: prod.splits sum.splits)
next
  assume a: "sample_timesteps d = pre @ i # rest \<and>
    sample_loop d model n g pre (randn_batch g pos n (3 * img_size d * img_size d)) = (Inr x', p') \<and>
    model Inference x' (replicate n (float32_long i)) = Inl e"
  then have it: "sample_iter d model n g (float32_long i) (x', p') = (Inl e, p')"
    by (simp add: sample_iter_def)
  have "sample_loop d model n g (sample_timesteps d)
          (randn_batch g pos n (3 * img_size d * img_size d)) = (Inl e, p')"
    using a it by (simp add: sample_loop_append)
  then show "sample d model n g md pos = (Inl e, Inference, p')"
    by (simp add: sample_def split: prod.splits)
qed

theorem sample_mode_on_exit_witness:
  "fst (sample two_step zero_model 1 (const_rng 0) Inference 0) = Inr [[127, 127, 127]] \<and>
   fst (snd (sample two_step zero_model 1 (const_rng 0) Inference 0)) = Training \<and>
   fst (sample two_step failing_model 1 (const_rng 0) Training 0) = Inl ModelError \<and>
   fst (snd (sample two_step failing_model 1 (const_rng 0) Training 0)) = Inference \<and>
   sample_timesteps two_step = [] @ 1 # [] \<and>
   sample_loop two_step failing_model 1 (const_rng 0) []
     (randn_batch (const_rng 0) 0 1 (3 * img_size two_step * img_size two_step)) =
     (Inr [[0, 0, 0]], 3) \<and>
   failing_model Inference [[0, 0, 0]] (replicate 1 (float32_long 1)) = Inl ModelError \<and>
   sample two_step failing_model 1 (const_rng 0) Training 0 = (Inl ModelError, Inference, 3)"
proof -
  have i: "img_size two_step = 1" by (simp add: two_step_def)
  have s: "sample two_step zero_model 1 (const_rng 0) Inference 0 =
     (Inr [[127, 127, 127]], Training, 3)"
    by (rule example_runs [THEN conjunct2])
  have h1: "fst (sample two_step zero_model 1 (const_rng 0) Inference 0) = Inr [[127, 127, 127]]"
    by (simp only: s fst_conv)
  have h2: "sample_timesteps two_step = [] @ 1 # []" by (simp add: example_constants)
  have h3: "sample_loop two_step failing_model 1 (const_rng 0) []
     (randn_batch (const_rng 0) 0 1 (3 * img_size two_step * img_size two_step)) =
     (Inr [[0, 0, 0]], 3)"
    by (simp add: i example_constants)
  have h4: "failing_model Inference [[0, 0, 0]] (replicate 1 (float32_long 1)) = Inl ModelError"
    by (simp add: failing_model_def)
  note A = sample_mode_on_exit [of two_step zero_model 1 "const_rng 0" Inference 0
      "[[127, 127, 127]]" ModelError "[]" 1 "[]" "[[0, 0, 0]]" 3]
  note B = sample_mode_on_exit [of two_step failing_model 1 "const_rng 0" Training 0
      "[]" ModelError "[]" 1 "[]" "[[0, 0, 0]]" 3]
  have c1: "fst (snd (sample two_step zero_model 1 (const_rng 0) Inference 0)) = Training"
    using A h1 by blast
  have c2: "sample two_step failing_model 1 (const_rng 0) Training 0 =
              (Inl ModelError, Inference, 3)"
    using B h2 h3 h4 by blast
  have c3: "fst (sample two_step failing_model 1 (const_rng 0) Training 0) = Inl ModelError"
    by (simp only: c2 fst_conv)
  have c4: "fst (snd (sample two_step failing_model 1 (const_rng 0) Training 0)) = Inference"
    using B c3 by blast
  from h1 c1 c3 c4 h2 h3 h4 c2 show ?thesis by (intro conjI)
qed

text \<open>
  C7.  For every successful generation call with batch size \<open>n\<close>, with a predictor that
  keeps its contract, the returned batch is the final \<open>x\<close> of the loop with every entry
  clamped to \<open>[-1, 1]\<close>, rescaled by \<open>(x+1)/2\<close>, multiplied by 255 and converted to an
  unsigned 8-bit integer.  It has \<open>n\<close> samples of \<open>3 * img_size * img_size\<close> entries, and
  every entry is the integer part of the scaled value, which lies in \<open>[0, 255]\<close>, so that
  the conversion loses no bits.
\<close>

theorem sample_output_format:
  assumes c: "shape_preserving model"
    and r: "sample d model n g md pos = (Inr out, md', pos')"
  shows "\<exists>x. sample_loop d model n g (sample_timesteps d)
                (randn_batch g pos n (3 * img_size d * img_size d)) = (Inr x, pos') \<and>
             out = map (map (\<lambda>v. to_uint8 ((clamp (- 1) 1 v + 1) / 2 * 255))) x \<and>
             map length out = replicate n (3 * img_size d * img_size d) \<and>
             (\<forall>j < length x. \<forall>k < length (x ! j).
                uint (out ! j ! k) = \<lfloor>(min (max (x ! j ! k) (- 1)) 1 + 1) / 2 * 255\<rfloor> \<and>
                0 \<le> uint (out ! j ! k) \<and> uint (out ! j ! k) \<le> 255)"
proof -
  let ?m = "3 * img_size d * img_size d"
  obtain x0 pos0 where rb: "randn_batch g pos n ?m = (x0, pos0)" by fastforce
  from r rb obtain x where
    l: "sample_loop d model n g (sample_timesteps d) (x0, pos0) = (Inr x, pos')"
    and o: "out = postprocess x"
    by (auto simp: sample_def split: prod.splits sum.splits)
  have s0: "map length x0 = replicate n ?m" using randn_batch_shape [of g pos n ?m] rb by simp
  have l0: "length x0 = n" using arg_cong [OF s0, of length] by simp
  have sx: "map length x = replicate n ?m" using sample_loop_shape [OF c l0 l] s0 by simp
  have so: "map length out = replicate n ?m" using sx by (simp add: o postprocess_def comp_def)
  have px: "uint (out ! j ! k) = \<lfloor>(min (max (x ! j ! k) (- 1)) 1 + 1) / 2 * 255\<rfloor> \<and>
                0 \<le> uint (out ! j ! k) \<and> uint (out ! j ! k) \<le> 255"
    if "j < length x" "k < length (x ! j)" for j k
  proof -
    have e: "out ! j ! k = to_uint8 ((clamp (- 1) 1 (x ! j ! k) + 1) / 2 * 255)"
      using that by (simp add: o postprocess_def)
    have cl: "clamp (- 1) 1 (x ! j ! k) = min (max (x ! j ! k) (- 1)) 1"
      by (simp only: clamp_def)
    have nn: "0 \<le> uint (out ! j ! k)" by simp
    from to_uint8_pixel [of "x ! j ! k"] nn show ?thesis
      unfolding e cl by blast
  qed
  from l o so px show ?thesis unfolding rb postprocess_def by blast
qed

theorem sample_output_format_witness:
  "shape_preserving zero_model \<and>
   sample two_step zero_model 1 (const_rng 0) Inference 0 = (Inr [[127, 127, 127]], Training, 3) \<and>
   map length [[127, 127, 127 :: 8 word]] = replicate 1 (3 * img_size two_step * img_size two_step)"
proof -
  have s: "sample two_step zero_model 1 (const_rng 0) Inference 0 =
     (Inr [[127, 127, 127]], Training, 3)"
    by (rule example_runs [THEN conjunct2])
  from sample_output_format [OF shape_preserving_zero_model s]
  have "map length [[127, 127, 127 :: 8 word]] =
          replicate 1 (3 * img_size two_step * img_size two_step)"
    by blast
  with s shape_preserving_zero_model show ?thesis by blast
qed

text \<open>
  C8, as stated.  With \<open>x0 = 13\<close>, \<open>t = 1\<close> and the draw \<open>epsilon = -13\<close> over the schedule
  of two steps, the forward process gives \<open>x_t = -7\<close>; one step of the reverse sampler
  with a predictor that returns exactly that \<open>epsilon\<close> gives \<open>57/8\<close>, which is \<open>47/8\<close>
  away from \<open>x0\<close>.
\<close>

theorem round_trip_counterexample:
  "noise_images two_step [[13]] [1] (const_rng (- 13)) 0 = (Inr ([[- 7]], [[- 13]]), 1) \<and>
   sample_iter two_step (echo_model [[- 13]]) 1 (const_rng (- 13)) 1 ([[- 7]], 1) =
     (Inr [[57/8]], 1) \<and>
   \<bar>57/8 - 13 :: real\<bar> = 47/8"
proof (intro conjI)
  show "\<bar>57/8 - 13 :: real\<bar> = 47/8" by simp
qed (rule round_trip_example)+

text \<open>
  C8, amended.  For a schedule built from \<open>0 < beta_start < beta_end < 1\<close>, every clean
  \<open>x0\<close> and fixed \<open>t\<close> in \<open>[1, T)\<close>, with \<open>(x_t, epsilon)\<close> produced by the forward noising
  operation: if the predictor returns exactly that \<open>epsilon\<close>, one update step of the
  reverse sampler applied to \<open>x_t\<close> gives, entry by entry,
  \<open>sqrt(alpha_hat[t-1]) * x0 + ((alpha[t] - alpha_hat[t]) / (sqrt(alpha[t]) *
  sqrt(1 - alpha_hat[t]))) * epsilon + sqrt(beta[t]) * z\<close>: the forward closed form one
  step earlier in its signal term, not \<open>x0\<close> itself.
\<close>

theorem reverse_step_after_forward:
  assumes d: "Diffusion_init T bs be sz = Inr d" and v: "0 < bs" "bs < be" "be < 1"
    and i: "1 \<le> i" "i < T" and n: "length x_0 = n"
    and f: "noise_images d x_0 (replicate n i) g pos = (Inr (x_t, epsilon), pos')"
  shows "\<exists>x'. sample_iter d (echo_model epsilon) n g' i (x_t, p) =
                (Inr x', snd (noise_draw n g' p x_t)) \<and>
              map length x' = map length x_0 \<and>
              (\<forall>j < length x_0. \<forall>k < length (x_0 ! j).
                 x' ! j ! k =
                   sqrt (alpha_hat d ! nat (i - 1)) * x_0 ! j ! k
                   + (alpha d ! nat i - alpha_hat d ! nat i)
                       / (sqrt (alpha d ! nat i) * sqrt (1 - alpha_hat d ! nat i)) * epsilon ! j ! k
                   + sqrt (beta d ! nat i) * fst (noise_draw n g' p x_t) ! j ! k)"
proof -
  note L = Diffusion_init_lengths [OF d]
  have le: "bs \<le> be" using v by simp
  have ni: "nat i < nat T" "Suc (nat (i - 1)) = nat i" "nat (i - 1) < nat T"
    using i by simp_all
  let ?a = "alpha d ! nat i" and ?ah = "alpha_hat d ! nat i" and ?b = "beta d ! nat i"
    and ?q = "alpha_hat d ! nat (i - 1)"
  have "?a \<in> set (alpha d)" using ni(1) L by simp
  from alpha_unit_interval [OF d v(1) le v(3) this] have a: "0 < ?a" by simp
  have ah: "?ah < 1" using alpha_hat_unit_interval [OF d v(1) le v(3) ni(1)] by simp
  have q: "0 < ?q" using alpha_hat_unit_interval [OF d v(1) le v(3) ni(3)] by simp
  have st: "?ah = ?q * ?a"
    using alpha_hat_step [OF d, of "nat (i - 1)"] ni by simp
  have acc: "list_all (\<lambda>i. - int (length (alpha_hat d)) \<le> i \<and> i < int (length (alpha_hat d)))
               (replicate n i)"
    using i L by (simp add: list_all_iff)
  have ln: "length (replicate n i) = length x_0" using n by simp
  from noise_images_accepted [OF acc ln, of g pos] f
  have e: "epsilon = fst (randn_like g pos x_0)"
    and sx: "map length x_t = map length x_0"
    and fx: "\<forall>j < length x_0. \<forall>k < length (x_0 ! j).
              x_t ! j ! k = sqrt ?ah * x_0 ! j ! k + sqrt (1 - ?ah) * epsilon ! j ! k"
    using i n by auto
  have se: "map length epsilon = map length x_t" by (simp add: e randn_like_shape sx)
  have lx: "length x_t = n" using length_same_shape [OF sx] n by simp
  have m: "echo_model epsilon Inference x_t (replicate n i) = Inr epsilon"
    by (simp add: echo_model_def)
  have ib: "0 \<le> i" "i < int (length (alpha d))" "i < int (length (alpha_hat d))"
    "i < int (length (beta d))"
    using i L by simp_all
  let ?z = "fst (noise_draw n g' p x_t)"
  let ?x' = "spec_update ?a ?ah ?b x_t epsilon ?z"
  have it: "sample_iter d (echo_model epsilon) n g' i (x_t, p) =
              (Inr ?x', snd (noise_draw n g' p x_t))"
    by (rule sample_iter_success [where model = "echo_model epsilon" and p = epsilon,
          OF m se lx ib])
  have sh: "map length ?x' = map length x_0" by (simp add: spec_update_shape sx)
  have el: "?x' ! j ! k =
              sqrt ?q * x_0 ! j ! k + (?a - ?ah) / (sqrt ?a * sqrt (1 - ?ah)) * epsilon ! j ! k
              + sqrt ?b * ?z ! j ! k"
    if j: "j < length x_0" and k: "k < length (x_0 ! j)" for j k
  proof -
    have jt: "j < length x_t" using length_same_shape [OF sx] j by simp
    have kt: "k < length (x_t ! j)" using nth_same_shape [OF sx jt] k by simp
    have xt: "x_t ! j ! k = sqrt ?ah * x_0 ! j ! k + sqrt (1 - ?ah) * epsilon ! j ! k"
      using fx j k by blast
    show ?thesis
      unfolding spec_update_nth [OF jt kt] xt
      by (rule round_trip_algebra [OF a q st ah])
  qed
  from it sh el show ?thesis by blast
qed

theorem reverse_step_after_forward_witness:
  "Diffusion_init 2 (69/169) (3/4) 1 = Inr two_step \<and> (0::real) < 69/169 \<and>
   (69/169 :: real) < 3/4 \<and> (3/4 :: real) < 1 \<and> (1::int) \<le> 1 \<and> (1::int) < 2 \<and>
   length [[13 :: real]] = 1 \<and>
   noise_images two_step [[13]] (replicate 1 1) (const_rng (- 13)) 0 =
     (Inr ([[- 7]], [[- 13]]), 1) \<and>
   sample_iter two_step (echo_model [[- 13]]) 1 (const_rng (- 13)) 1 ([[- 7]], 1) =
     (Inr [[sqrt (100/169) * 13 + (1/4 - 25/169) / (sqrt (1/4) * sqrt (1 - 25/169)) * (- 13)]], 1)"
proof -
  have h: "(0::real) < 69/169" "(69/169 :: real) < 3/4" "(3/4 :: real) < 1" "(1::int) \<le> 1"
    "(1::int) < 2" "length [[13 :: real]] = 1"
    by simp_all
  have f: "noise_images two_step [[13]] (replicate 1 1) (const_rng (- 13)) 0 =
     (Inr ([[- 7]], [[- 13]]), 1)"
    using round_trip_example(1) by simp
  from reverse_step_after_forward [OF two_step_init h f, of "const_rng (- 13)" 1]
  obtain x' where
    r: "sample_iter two_step (echo_model [[- 13]]) 1 (const_rng (- 13)) 1 ([[- 7]], 1) =
          (Inr x', snd (noise_draw 1 (const_rng (- 13)) 1 [[- 7]]))"
    and s: "map length x' = map length [[13 :: real]]"
    and e: "\<forall>j < length [[13 :: real]]. \<forall>k < length ([[13 :: real]] ! j).
                 x' ! j ! k =
                   sqrt (alpha_hat two_step ! nat (1 - 1)) * [[13]] ! j ! k
                   + (alpha two_step ! nat 1 - alpha_hat two_step ! nat 1)
                       / (sqrt (alpha two_step ! nat 1) * sqrt (1 - alpha_hat two_step ! nat 1))
                       * [[- 13]] ! j ! k
                   + sqrt (beta two_step ! nat 1)
                       * fst (noise_draw 1 (const_rng (- 13)) 1 [[- 7]]) ! j ! k"
    by blast
  from s obtain y where x': "x' = [[y]]"
    by (auto simp: map_eq_Cons_conv length_Suc_conv)
  have "y = sqrt (100/169) * 13 + (1/4 - 25/169) / (sqrt (1/4) * sqrt (1 - 25/169)) * (- 13)"
    using e [rule_format, of 0 0] by (simp add: x' two_step_def noise_draw_def zeros_like_def)
  with r x' have "sample_iter two_step (echo_model [[- 13]]) 1 (const_rng (- 13)) 1 ([[- 7]], 1) =
     (Inr [[sqrt (100/169) * 13 + (1/4 - 25/169) / (sqrt (1/4) * sqrt (1 - 25/169)) * (- 13)]], 1)"
    by (simp add: noise_draw_def)
  with h f two_step_init show ?thesis by blast
qed

end
